theory Spec2Isabelle
  imports Complex_Main "HOL-Library.Monad_Syntax" "HOL-Library.Multiset"
begin

section \<open>Strings as the dashboard uses them\<close>

text \<open>
  A string is a list of characters. The model covers ASCII text: \<open>String.prototype.trim\<close>
  and the regular expression class \<open>\s\<close> strip the six ASCII white space characters,
  \<open>toLowerCase\<close> maps \<open>A\<close>..\<open>Z\<close> to \<open>a\<close>..\<open>z\<close> and leaves every other
  character alone, and \<open>\d\<close> is \<open>0\<close>..\<open>9\<close>.
\<close>

definition isSpace :: "char \<Rightarrow> bool" where
  "isSpace c = (let n = (of_char c :: int) in n = 32 \<or> (9 \<le> n \<and> n \<le> 13))"

definition trim :: "string \<Rightarrow> string" where
  "trim s = rev (dropWhile isSpace (rev (dropWhile isSpace s)))"

definition lowerChar :: "char \<Rightarrow> char" where
  "lowerChar c = (let n = (of_char c :: int) in if 65 \<le> n \<and> n \<le> 90 then char_of (n + 32) else c)"

definition toLowerCase :: "string \<Rightarrow> string" where
  "toLowerCase s = map lowerChar s"

definition isDigit :: "char \<Rightarrow> bool" where
  "isDigit c = (let n = (of_char c :: int) in 48 \<le> n \<and> n \<le> 57)"

definition digitVal :: "char \<Rightarrow> int" where
  "digitVal c = of_char c - 48"

definition decimal :: "string \<Rightarrow> int" where
  "decimal s = foldl (\<lambda>n c. 10 * n + digitVal c) 0 s"

section \<open>Plain objects\<close>

text \<open>
  A row of the uploaded sheet (\<open>IssueRow\<close>) and the accumulator of a \<open>reduce\<close>
  (\<open>Record<string, number>\<close>) are plain objects. An object is the list of its own
  properties in the order they were created, with no key twice. Cell values are strings:
  a numeric cell of a workbook stands for its \<open>String(...)\<close> rendering, which is never
  empty. Property names inherited from \<open>Object.prototype\<close> are outside the model.

  \<open>Object.keys\<close> and \<open>Object.entries\<close> list the array-index keys (canonical decimal
  numerals below \<open>2^32 - 1\<close>) first, in ascending numeric order, and then every other key
  in creation order.
\<close>

type_synonym 'a obj = "(string \<times> 'a) list"

definition obj_get :: "'a obj \<Rightarrow> string \<Rightarrow> 'a option" where
  "obj_get ob k = map_of ob k"

fun obj_set :: "'a obj \<Rightarrow> string \<Rightarrow> 'a \<Rightarrow> 'a obj" where
  "obj_set [] k v = [(k, v)]"
| "obj_set (p # ps) k v = (if fst p = k then (k, v) # ps else p # obj_set ps k v)"

definition isArrayIndex :: "string \<Rightarrow> bool" where
  "isArrayIndex k =
     (k \<noteq> [] \<and> list_all isDigit k \<and> (length k = 1 \<or> hd k \<noteq> CHR ''0'')
      \<and> decimal k < 4294967295)"

definition Object_entries :: "'a obj \<Rightarrow> (string \<times> 'a) list" where
  "Object_entries ob =
     sort_key (\<lambda>p. decimal (fst p)) (filter (\<lambda>p. isArrayIndex (fst p)) ob)
     @ filter (\<lambda>p. \<not> isArrayIndex (fst p)) ob"

definition Object_keys :: "'a obj \<Rightarrow> string list" where
  "Object_keys ob = map fst (Object_entries ob)"

section \<open>Column Resolver\<close>

type_synonym IssueRow = "string obj"

text \<open>
  The first loop of \<open>getColumnValue\<close>: the first alias that is a key of the row with a
  value other than the empty string.
\<close>

fun exactPass :: "IssueRow \<Rightarrow> string list \<Rightarrow> string option" where
  "exactPass row [] = None"
| "exactPass row (name # names) =
     (case obj_get row name of
        Some v \<Rightarrow> if v \<noteq> [] then Some (trim v) else exactPass row names
      | None \<Rightarrow> exactPass row names)"

text \<open>
  The inner loop of the second pass: does the trimmed, lower-cased key equal some alias
  in lower case? The value returned on a hit does not depend on which alias it was.
\<close>

fun aliasHit :: "string \<Rightarrow> string list \<Rightarrow> bool" where
  "aliasHit trimmedKey [] = False"
| "aliasHit trimmedKey (name # names) =
     (if trimmedKey = toLowerCase name then True else aliasHit trimmedKey names)"

text \<open>
  The outer loop of the second pass runs over \<open>Object.keys(row)\<close> and returns
  \<open>String(row[key]).trim()\<close> at the first key that hits, with no test of the value.
\<close>

fun loosePass :: "IssueRow \<Rightarrow> string list \<Rightarrow> string list \<Rightarrow> string option" where
  "loosePass row [] possibleNames = None"
| "loosePass row (key # keys) possibleNames =
     (if aliasHit (toLowerCase (trim key)) possibleNames
      then (case obj_get row key of Some v \<Rightarrow> Some (trim v) | None \<Rightarrow> Some ''undefined'')
      else loosePass row keys possibleNames)"

definition getColumnValue :: "IssueRow \<Rightarrow> string list \<Rightarrow> string" where
  "getColumnValue row possibleNames =
     (case exactPass row possibleNames of
        Some v \<Rightarrow> v
      | None \<Rightarrow>
          (case loosePass row (Object_keys row) possibleNames of
             Some v \<Rightarrow> v
           | None \<Rightarrow> ''Unknown''))"

definition getStatus :: "IssueRow \<Rightarrow> string" where
  "getStatus row = getColumnValue row [''Status'', ''status'', ''Status '']"

definition getPriority :: "IssueRow \<Rightarrow> string" where
  "getPriority row = getColumnValue row [''Priority'', ''priority'', ''Priority '']"

definition getType :: "IssueRow \<Rightarrow> string" where
  "getType row = getColumnValue row
     [''Issue tracker'', ''Issue tracker '', ''Issue Tracker'', ''Issue Tracker '',
      ''issue tracker'', ''Tracker'', ''Type'', ''type'']"

definition getState :: "IssueRow \<Rightarrow> string" where
  "getState row = getColumnValue row [''State'', ''state'', ''State '', ''States'', ''states'']"

definition getCreatedOn :: "IssueRow \<Rightarrow> string" where
  "getCreatedOn row =
     (let val = getColumnValue row [''created_on'', ''Created'', ''created_on '', ''Created On'']
      in if val = ''Unknown'' then ''-'' else val)"

definition getClosedOn :: "IssueRow \<Rightarrow> string" where
  "getClosedOn row =
     (let val = getColumnValue row
        [''closed_on'', ''Closed On'', ''closed_on '', ''Closed_On'', ''closedOn'']
      in if val = ''Unknown'' then ''-'' else val)"

section \<open>Numbers and their decimal rendering\<close>

text \<open>
  \<open>Number.prototype.toString\<close> on an integer, and \<open>parseInt\<close> on a string. The program
  calls \<open>parseInt\<close> only on the digit groups of its two date patterns and on the output of
  \<open>toString\<close>, so white space, sign and radix prefixes in front of the digits are not
  modelled; \<open>None\<close> is \<open>NaN\<close>.
\<close>

function digitsOf :: "int \<Rightarrow> string" where
  "digitsOf n = (if n < 10 then [char_of (48 + n)] else digitsOf (n div 10) @ [char_of (48 + n mod 10)])"
  by pat_completeness auto
termination
  by (relation "measure nat") auto

declare digitsOf.simps [simp del]

definition toString :: "int \<Rightarrow> string" where
  "toString n = (if n < 0 then CHR ''-'' # digitsOf (- n) else digitsOf n)"

definition parseInt :: "string \<Rightarrow> int option" where
  "parseInt s = (let ds = takeWhile isDigit s in if ds = [] then None else Some (decimal ds))"

section \<open>Date Parser\<close>

subsection \<open>The two regular expressions\<close>

text \<open>
  \<open>/^(\d{1,2})\/(\d{1,2})\/(\d{4})\s+(\d{1,2}):(\d{2})$/\<close> and
  \<open>/^(\d{1,2})\/(\d{1,2})\/(\d{2})$/\<close>. Every digit group is followed by a character
  that is not a digit (or by the end of the input), so the greedy choice is the only one
  that can succeed and the match is a left-to-right scan.
\<close>

definition digitRun :: "nat \<Rightarrow> nat \<Rightarrow> string \<Rightarrow> (string \<times> string) option" where
  "digitRun lo hi s =
     (let g = takeWhile isDigit (take hi s)
      in if lo \<le> length g then Some (g, drop (length g) s) else None)"

definition lit :: "char \<Rightarrow> string \<Rightarrow> string option" where
  "lit c s = (case s of [] \<Rightarrow> None | x # r \<Rightarrow> if x = c then Some r else None)"

definition spaceRun :: "string \<Rightarrow> string option" where
  "spaceRun s = (case s of [] \<Rightarrow> None | x # r \<Rightarrow> if isSpace x then Some (dropWhile isSpace r) else None)"

definition match1 :: "string \<Rightarrow> (string \<times> string \<times> string) option" where
  "match1 s = do {
     (g1, r1) \<leftarrow> digitRun 1 2 s;
     r2 \<leftarrow> lit (CHR ''/'') r1;
     (g2, r3) \<leftarrow> digitRun 1 2 r2;
     r4 \<leftarrow> lit (CHR ''/'') r3;
     (g3, r5) \<leftarrow> digitRun 4 4 r4;
     r6 \<leftarrow> spaceRun r5;
     (g4, r7) \<leftarrow> digitRun 1 2 r6;
     r8 \<leftarrow> lit (CHR '':'') r7;
     (g5, r9) \<leftarrow> digitRun 2 2 r8;
     if r9 = [] then Some (g1, g2, g3) else None
   }"

definition match2 :: "string \<Rightarrow> (string \<times> string \<times> string) option" where
  "match2 s = do {
     (g1, r1) \<leftarrow> digitRun 1 2 s;
     r2 \<leftarrow> lit (CHR ''/'') r1;
     (g2, r3) \<leftarrow> digitRun 1 2 r2;
     r4 \<leftarrow> lit (CHR ''/'') r3;
     (g3, r5) \<leftarrow> digitRun 2 2 r4;
     if r5 = [] then Some (g1, g2, g3) else None
   }"

subsection \<open>Date values\<close>

text \<open>
  A valid \<open>Date\<close> is its time value, the milliseconds since the epoch. The host supplies
  two things the program does not define: what \<open>new Date(string)\<close> makes of a string
  (\<open>None\<close> when \<open>getTime()\<close> is \<open>NaN\<close>) and the conversion from local time to UTC of
  the browser's time zone. \<open>new Date(year, monthIndex, day)\<close> is the language's
  \<open>MakeDay\<close>: months beyond 0..11 carry into the year, days beyond the month carry on,
  and a year from 0 to 99 means 1900 + year. With a year of at most four digits and
  month and day of at most two the time value is far inside the range of valid dates.
\<close>

record JSRuntime =
  Date_parse :: "string \<Rightarrow> int option"
  UTC :: "int \<Rightarrow> int"

definition msPerDay :: int where
  "msPerDay = 1000 * 60 * 60 * 24"

definition DayFromYear :: "int \<Rightarrow> int" where
  "DayFromYear y = 365 * (y - 1970) + (y - 1969) div 4 - (y - 1901) div 100 + (y - 1601) div 400"

definition InLeapYear :: "int \<Rightarrow> bool" where
  "InLeapYear y = (y mod 4 = 0 \<and> (y mod 100 \<noteq> 0 \<or> y mod 400 = 0))"

definition daysBeforeMonth :: "bool \<Rightarrow> nat \<Rightarrow> int" where
  "daysBeforeMonth leap mn =
     [0, 31, 59, 90, 120, 151, 181, 212, 243, 273, 304, 334] ! mn + (if leap \<and> 2 \<le> mn then 1 else 0)"

definition MakeDay :: "int \<Rightarrow> int \<Rightarrow> int \<Rightarrow> int" where
  "MakeDay year month date =
     (let ym = year + month div 12; mn = nat (month mod 12)
      in DayFromYear ym + daysBeforeMonth (InLeapYear ym) mn + date - 1)"

definition newDate :: "JSRuntime \<Rightarrow> int \<Rightarrow> int \<Rightarrow> int \<Rightarrow> int" where
  "newDate rt year monthIndex day =
     (let yr = (if 0 \<le> year \<and> year \<le> 99 then 1900 + year else year)
      in UTC rt (MakeDay yr monthIndex day * msPerDay))"

subsection \<open>parseDate\<close>

text \<open>
  \<open>None\<close> as the argument is a missing value (\<open>undefined\<close> or \<open>null\<close>), which
  \<open>!dateStr\<close> rejects together with the empty string; \<open>None\<close> as the result is
  \<open>null\<close>.
\<close>

definition parseDate :: "JSRuntime \<Rightarrow> string option \<Rightarrow> int option" where
  "parseDate rt dateStr =
     (case dateStr of
        None \<Rightarrow> None
      | Some s \<Rightarrow>
          if s = [] \<or> s = ''Unknown'' \<or> s = ''-'' then None
          else
            (case match1 s of
               Some (month, day, year) \<Rightarrow> do {
                 y \<leftarrow> parseInt year; m \<leftarrow> parseInt month; d \<leftarrow> parseInt day;
                 Some (newDate rt y (m - 1) d)
               }
             | None \<Rightarrow>
                 (case match2 s of
                    Some (day, month, year) \<Rightarrow> do {
                      y \<leftarrow> parseInt year; m \<leftarrow> parseInt month; d \<leftarrow> parseInt day;
                      let fullYear = (if y > 50 then 1900 + y else 2000 + y);
                      Some (newDate rt fullYear (m - 1) d)
                    }
                  | None \<Rightarrow> Date_parse rt s)))"

section \<open>Binary64 arithmetic\<close>

text \<open>
  The numbers of the program are doubles. An operation on doubles gives the double
  nearest to the exact result, ties to the even significand, so the operations the
  program applies to integers are modelled exactly, with rationals for the values.
  \<open>fdiv a b\<close> is the quotient of two doubles that are integers, \<open>0 \<le> a\<close>, \<open>0 < b\<close> and
  \<open>a / b < 2^53\<close>: the quotient is scaled by a power of two into \<open>[2^52, 2^53)\<close>,
  rounded to an integer and scaled back. \<open>fsub x y\<close> is the difference of two doubles
  that are integers: below \<open>2^53\<close> in absolute value it is exact, from there on it is
  rounded to a multiple of the power of two that leaves 53 significant bits.
\<close>

function normShift :: "int \<Rightarrow> int \<Rightarrow> nat \<Rightarrow> nat" where
  "normShift a b k = (if a \<le> 0 \<or> 2 ^ 52 * b \<le> a * 2 ^ k then k else normShift a b (Suc k))"
  by pat_completeness auto
termination
proof (relation "measure (\<lambda>(a, b, k). nat (2 ^ 52 * b - a * 2 ^ k))")
  show "wf (measure (\<lambda>(a, b, k). nat (2 ^ 52 * b - a * 2 ^ k)))"
    by simp
next
  fix a b :: int and k :: nat
  assume "\<not> (a \<le> 0 \<or> 2 ^ 52 * b \<le> a * 2 ^ k)"
  then have a: "0 < a" and lt: "a * 2 ^ k < 2 ^ 52 * b"
    by auto
  have "0 < a * 2 ^ k"
    using a by simp
  then show "((a, b, Suc k), (a, b, k)) \<in> measure (\<lambda>(a, b, k). nat (2 ^ 52 * b - a * 2 ^ k))"
    using lt by simp
qed

declare normShift.simps [simp del]

definition roundHalfEven :: "rat \<Rightarrow> int" where
  "roundHalfEven q =
     (let f = \<lfloor>q\<rfloor>; r = q - of_int f
      in if r < 1 / 2 then f else if 1 / 2 < r then f + 1 else if even f then f else f + 1)"

definition fdiv :: "int \<Rightarrow> int \<Rightarrow> rat" where
  "fdiv a b =
     (let k = normShift a b 0
      in of_int (roundHalfEven (of_int (a * 2 ^ k) / of_int b)) / 2 ^ k)"

function downShift :: "int \<Rightarrow> nat \<Rightarrow> nat" where
  "downShift a j = (if a < 2 ^ 53 * 2 ^ j then j else downShift a (Suc j))"
  by pat_completeness auto
termination
proof (relation "measure (\<lambda>(a, j). nat (a + 1 - 2 ^ 53 * 2 ^ j))")
  show "wf (measure (\<lambda>(a, j). nat (a + 1 - 2 ^ 53 * 2 ^ j)))"
    by simp
next
  fix a :: int and j :: nat
  assume "\<not> a < 2 ^ 53 * 2 ^ j"
  moreover have "(0::int) < 2 ^ 53 * 2 ^ j"
    by simp
  ultimately show "((a, Suc j), (a, j)) \<in> measure (\<lambda>(a, j). nat (a + 1 - 2 ^ 53 * 2 ^ j))"
    by simp
qed

declare downShift.simps [simp del]

definition fsub :: "int \<Rightarrow> int \<Rightarrow> int" where
  "fsub x y =
     (let d = x - y; j = downShift \<bar>d\<bar> 0
      in sgn d * (roundHalfEven (of_int \<bar>d\<bar> / 2 ^ j) * 2 ^ j))"

section \<open>Resolution-Time Calculator\<close>

text \<open>
  The local-data variant. The time values of two valid dates are integers of at most
  \<open>8.64 * 10^15\<close> in absolute value, which are doubles; their difference, its quotient
  by the milliseconds of a day and \<open>Math.ceil\<close> are the program's binary64 operations.
\<close>

definition getResolutionDays :: "JSRuntime \<Rightarrow> IssueRow \<Rightarrow> string" where
  "getResolutionDays rt row =
     (let createdStr = getCreatedOn row; closedStr = getClosedOn row
      in if closedStr = ''-'' \<or> closedStr = ''Unknown'' then ''-''
         else
           (case (parseDate rt (Some createdStr), parseDate rt (Some closedStr)) of
              (Some createdDate, Some closedDate) \<Rightarrow>
                (let diffTime = \<bar>fsub closedDate createdDate\<bar>;
                     diffDays = \<lceil>fdiv diffTime msPerDay\<rceil>
                 in toString diffDays)
            | _ \<Rightarrow> ''-''))"

text \<open>
  The remote-data variant (\<open>src/App.tsx\<close>) reads the two fields by their fixed names and
  hands both strings to \<open>new Date\<close>.
\<close>

definition falsy :: "string option \<Rightarrow> bool" where
  "falsy v = (v = None \<or> v = Some [])"

definition getResolutionDays_remote :: "JSRuntime \<Rightarrow> IssueRow \<Rightarrow> string" where
  "getResolutionDays_remote rt row =
     (if falsy (obj_get row ''closed_on'') \<or> falsy (obj_get row ''created_on'') then ''-''
      else
        (case (obj_get row ''created_on'' \<bind> Date_parse rt, obj_get row ''closed_on'' \<bind> Date_parse rt) of
           (Some created', Some closed') \<Rightarrow>
             (let diffTime = \<bar>fsub closed' created'\<bar>;
                  diffDays = \<lceil>fdiv diffTime msPerDay\<rceil>
              in toString diffDays)
         | _ \<Rightarrow> ''-''))"

section \<open>Aggregator\<close>

text \<open>
  The accumulator of each \<open>reduce\<close> is the object literal \<open>{}\<close>, which inherits from
  \<open>Object.prototype\<close>. For a name that the accumulator does not own, \<open>acc[k]\<close> finds
  the inherited member of that name: a function for the eleven method names, the
  prototype object for \<open>__proto__\<close>. Such a value is truthy, \<open>+ 1\<close> makes a string of
  it, and the assignment stores the string under \<open>k\<close>; the setter of \<open>__proto__\<close>
  ignores a string, so for that name nothing is stored. A stored string stays a string
  with every further \<open>+ 1\<close>. Its text depends on the host and is not modelled:
  \<open>Text\<close> stands for it.
\<close>

datatype tallyValue = Count nat | Text

definition inheritedMethods :: "string list" where
  "inheritedMethods =
     [''constructor'', ''hasOwnProperty'', ''isPrototypeOf'', ''propertyIsEnumerable'',
      ''toLocaleString'', ''toString'', ''valueOf'', ''__defineGetter__'', ''__defineSetter__'',
      ''__lookupGetter__'', ''__lookupSetter__'']"

definition inheritedNames :: "string list" where
  "inheritedNames = ''__proto__'' # inheritedMethods"

text \<open>
  The callback of the four \<open>reduce\<close> calls: \<open>acc[k] = (acc[k] || 0) + 1\<close>.
\<close>

definition tally :: "(IssueRow \<Rightarrow> string) \<Rightarrow> tallyValue obj \<Rightarrow> IssueRow \<Rightarrow> tallyValue obj" where
  "tally getter acc row =
     (let k = getter row
      in if k = ''__proto__'' then acc
         else
           (case obj_get acc k of
              Some (Count n) \<Rightarrow> obj_set acc k (Count (n + 1))
            | Some Text \<Rightarrow> obj_set acc k Text
            | None \<Rightarrow>
                if k \<in> set inheritedMethods then obj_set acc k Text
                else obj_set acc k (Count (0 + 1))))"

definition statusCounts :: "IssueRow list \<Rightarrow> tallyValue obj" where
  "statusCounts data = foldl (tally getStatus) [] data"

definition priorityCounts :: "IssueRow list \<Rightarrow> tallyValue obj" where
  "priorityCounts data = foldl (tally getPriority) [] data"

definition typeCounts :: "IssueRow list \<Rightarrow> tallyValue obj" where
  "typeCounts data = foldl (tally getType) [] data"

definition stateCounts :: "IssueRow list \<Rightarrow> tallyValue obj" where
  "stateCounts data = foldl (tally getState) [] data"

record ChartData =
  bucket_name :: string
  bucket_value :: tallyValue

definition toChartData :: "string \<times> tallyValue \<Rightarrow> ChartData" where
  "toChartData p = \<lparr>bucket_name = fst p, bucket_value = snd p\<rparr>"

definition statusData :: "IssueRow list \<Rightarrow> ChartData list" where
  "statusData data = map toChartData (Object_entries (statusCounts data))"

definition priorityData :: "IssueRow list \<Rightarrow> ChartData list" where
  "priorityData data = map toChartData (Object_entries (priorityCounts data))"

definition typeData :: "IssueRow list \<Rightarrow> ChartData list" where
  "typeData data = map toChartData (Object_entries (typeCounts data))"

text \<open>
  \<open>Array.prototype.sort\<close> is stable; with the comparator \<open>b.value - a.value\<close> on
  counts it sorts by falling count, which is a stable sort by the negated count. With a
  string among the values the comparator gives \<open>NaN\<close>, which counts as equal: if all
  the counts are the same nothing moves, and otherwise the comparator is not consistent
  and the language leaves the order to the host, which is the result \<open>None\<close>.
\<close>

definition stateData :: "IssueRow list \<Rightarrow> ChartData list option" where
  "stateData data =
     (let buckets = map toChartData (Object_entries (stateCounts data));
          values = map bucket_value buckets
      in if Text \<notin> set values
         then Some (take 10 (sort_key
                (\<lambda>b. case bucket_value b of Count n \<Rightarrow> - int n | Text \<Rightarrow> 0) buckets))
         else if length (remdups (filter (\<lambda>v. v \<noteq> Text) values)) \<le> 1
         then Some (take 10 buckets)
         else None)"

text \<open>
  For the proofs: the same callback on an accumulator of plain counts, which is what
  \<open>tally\<close> does as long as no resolved value is an inherited name.
\<close>

definition plainTally :: "(IssueRow \<Rightarrow> string) \<Rightarrow> nat obj \<Rightarrow> IssueRow \<Rightarrow> nat obj" where
  "plainTally getter acc row =
     (let k = getter row
      in obj_set acc k ((case obj_get acc k of None \<Rightarrow> 0 | Some n \<Rightarrow> n) + 1))"

definition counted :: "nat obj \<Rightarrow> tallyValue obj" where
  "counted acc = map (\<lambda>p. (fst p, Count (snd p))) acc"

subsection \<open>Average resolution time\<close>

text \<open>
  The quotient of the sum by the count is a binary64 division and \<open>toFixed(1)\<close> rounds
  the exact value of that double. The sum itself is exact below \<open>2^53\<close>.
\<close>

text \<open>
  \<open>x.toFixed(1)\<close> for \<open>0 \<le> x < 10^21\<close>: the integer \<open>n\<close> with \<open>n / 10\<close> nearest to
  \<open>x\<close>, the larger one on a tie, written with a point before its last digit.
\<close>

definition tenths :: "int \<Rightarrow> string" where
  "tenths n =
     (let m = toString n; m' = (if length m \<le> 1 then CHR ''0'' # m else m)
      in take (length m' - 1) m' @ ''.'' @ drop (length m' - 1) m')"

definition toFixed1 :: "rat \<Rightarrow> string" where
  "toFixed1 x = tenths \<lfloor>10 * x + 1 / 2\<rfloor>"

text \<open>
  \<open>getResolutionDays\<close> returns \<open>-\<close> or a digit string, so the \<open>parseInt\<close> of the
  \<open>map\<close> never gives \<open>NaN\<close> and the \<open>filter\<close> drops exactly the \<open>null\<close> entries.
\<close>

definition resolutionTimes :: "JSRuntime \<Rightarrow> IssueRow list \<Rightarrow> int list" where
  "resolutionTimes rt data =
     List.map_filter
       (\<lambda>row. let days = getResolutionDays rt row in if days \<noteq> ''-'' then parseInt days else None)
       data"

definition avgResolutionTime :: "JSRuntime \<Rightarrow> IssueRow list \<Rightarrow> string" where
  "avgResolutionTime rt data =
     (let ts = resolutionTimes rt data
      in if length ts > 0 then toFixed1 (fdiv (foldl (+) 0 ts) (int (length ts))) else ''0'')"

section \<open>Filter Engine\<close>

record SelectedFilter =
  filter_type :: string
  filter_value :: string

definition filteredData :: "SelectedFilter option \<Rightarrow> IssueRow list \<Rightarrow> IssueRow list" where
  "filteredData selectedFilter data =
     (case selectedFilter of
        None \<Rightarrow> []
      | Some sel \<Rightarrow>
          filter
            (\<lambda>row.
               if filter_type sel = ''status'' then getStatus row = filter_value sel
               else if filter_type sel = ''priority'' then getPriority row = filter_value sel
               else if filter_type sel = ''type'' then getType row = filter_value sel
               else if filter_type sel = ''state'' then getState row = filter_value sel
               else True)
            data)"

section \<open>An example host\<close>

text \<open>
  A browser in the UTC time zone whose \<open>Date\<close> constructor reads the four strings of
  the examples month-first, as V8 and SpiderMonkey do (1 January 2024, 3 January 2024,
  1 January 2024 and 1 February 2024 at midnight). The table holds only the strings the
  examples use; every other string is left an invalid date.
\<close>

definition exampleHost :: JSRuntime where
  "exampleHost =
     \<lparr>Date_parse = (\<lambda>s.
        if s = ''1/1/2024'' then Some 1704067200000
        else if s = ''1/3/2024'' then Some 1704240000000
        else if s = ''1/1/24'' then Some 1704067200000
        else if s = ''2/1/24'' then Some 1706745600000
        else None),
      UTC = (\<lambda>t. t)\<rparr>"

text \<open>
  An example dataset of four records: two open bugs, a closed feature with a numeric
  priority, and a record with no columns at all.
\<close>

definition exampleData :: "IssueRow list" where
  "exampleData =
     [[(''Status'', ''Open''), (''Priority'', ''High''), (''Type'', ''Bug''), (''State'', ''New'')],
      [(''Status'', ''Open''), (''Priority'', ''2''), (''Type'', ''Bug''), (''State'', ''Done'')],
      [(''Status'', ''Closed''), (''Priority'', ''1''), (''Type'', ''Feature''), (''State'', ''Done'')],
      []]"

section \<open>Properties of the Column Resolver\<close>

lemma aliasHit_iff: "aliasHit t names \<longleftrightarrow> t \<in> toLowerCase ` set names"
  by (induction names) auto

lemma exactPass_None_iff:
  "exactPass row names = None \<longleftrightarrow> (\<forall>n\<in>set names. obj_get row n = None \<or> obj_get row n = Some [])"
  by (induction names) (auto split: option.splits)

lemma exactPass_first:
  assumes "\<forall>n\<in>set pre. obj_get row n = None \<or> obj_get row n = Some []"
    and "obj_get row a = Some v" and "v \<noteq> []"
  shows "exactPass row (pre @ a # post) = Some (trim v)"
  using assms by (induction pre) (auto split: option.splits)

lemma loosePass_None_iff:
  "loosePass row keys names = None \<longleftrightarrow> (\<forall>k\<in>set keys. \<not> aliasHit (toLowerCase (trim k)) names)"
  by (induction keys) (auto split: option.splits)

lemma loosePass_first:
  assumes "\<forall>k\<in>set pre. \<not> aliasHit (toLowerCase (trim k)) names"
    and "aliasHit (toLowerCase (trim k)) names" and "obj_get row k = Some v"
  shows "loosePass row (pre @ k # post) names = Some (trim v)"
  using assms by (induction pre) auto

text \<open>
  Claim C2, as the code has it. In the first pass the earliest alias in the list that is
  a key of the row with a non-empty value gives the result. The second pass is reached
  only when no alias is such a key; there the first key of the row, in the order of
  \<open>Object.keys\<close>, that equals some alias after trimming and lower-casing the key gives
  the result when its value is not empty, wherever that alias stands in the list.
\<close>

theorem getColumnValue_precedence:
  "(possibleNames = pre @ a # post
      \<and> (\<forall>n\<in>set pre. obj_get row n = None \<or> obj_get row n = Some [])
      \<and> obj_get row a = Some v \<and> v \<noteq> []
     \<longrightarrow> getColumnValue row possibleNames = trim v)
   \<and> ((\<forall>n\<in>set possibleNames. obj_get row n = None \<or> obj_get row n = Some [])
      \<and> Object_keys row = kpre @ k # kpost
      \<and> (\<forall>k'\<in>set kpre. toLowerCase (trim k') \<notin> toLowerCase ` set possibleNames)
      \<and> toLowerCase (trim k) \<in> toLowerCase ` set possibleNames
      \<and> obj_get row k = Some w \<and> w \<noteq> []
     \<longrightarrow> getColumnValue row possibleNames = trim w)"
proof (intro conjI impI)
  assume "possibleNames = pre @ a # post
      \<and> (\<forall>n\<in>set pre. obj_get row n = None \<or> obj_get row n = Some [])
      \<and> obj_get row a = Some v \<and> v \<noteq> []"
  then show "getColumnValue row possibleNames = trim v"
    by (simp add: getColumnValue_def exactPass_first)
next
  assume h: "(\<forall>n\<in>set possibleNames. obj_get row n = None \<or> obj_get row n = Some [])
      \<and> Object_keys row = kpre @ k # kpost
      \<and> (\<forall>k'\<in>set kpre. toLowerCase (trim k') \<notin> toLowerCase ` set possibleNames)
      \<and> toLowerCase (trim k) \<in> toLowerCase ` set possibleNames
      \<and> obj_get row k = Some w \<and> w \<noteq> []"
  then have "exactPass row possibleNames = None"
    by (simp add: exactPass_None_iff)
  moreover have "loosePass row (Object_keys row) possibleNames = Some (trim w)"
    using h by (simp add: loosePass_first aliasHit_iff)
  ultimately show "getColumnValue row possibleNames = trim w"
    by (simp add: getColumnValue_def)
qed

theorem getColumnValue_precedence_witness:
  "getColumnValue [(''status'', ''Open''), (''Status'', ''Closed'')] [''Status'', ''status'', ''Status ''] = trim ''Closed''
   \<and> getColumnValue [(''TYPE'', ''Bug''), (''TRACKER'', ''Support'')] [''Tracker'', ''Type''] = trim ''Bug''"
proof
  have "[''Status'', ''status'', ''Status ''] = [] @ ''Status'' # [''status'', ''Status '']
      \<and> (\<forall>n\<in>set []. obj_get [(''status'', ''Open''), (''Status'', ''Closed'')] n = None
            \<or> obj_get [(''status'', ''Open''), (''Status'', ''Closed'')] n = Some [])
      \<and> obj_get [(''status'', ''Open''), (''Status'', ''Closed'')] ''Status'' = Some ''Closed'' \<and> ''Closed'' \<noteq> []"
    by (simp add: obj_get_def)
  then show "getColumnValue [(''status'', ''Open''), (''Status'', ''Closed'')] [''Status'', ''status'', ''Status ''] = trim ''Closed''"
    using getColumnValue_precedence [where possibleNames = "[''Status'', ''status'', ''Status '']"
        and pre = "[]" and a = "''Status''" and post = "[''status'', ''Status '']"
        and row = "[(''status'', ''Open''), (''Status'', ''Closed'')]" and v = "''Closed''"]
    by blast
next
  have "(\<forall>n\<in>set [''Tracker'', ''Type'']. obj_get [(''TYPE'', ''Bug''), (''TRACKER'', ''Support'')] n = None
            \<or> obj_get [(''TYPE'', ''Bug''), (''TRACKER'', ''Support'')] n = Some [])
      \<and> Object_keys [(''TYPE'', ''Bug''), (''TRACKER'', ''Support'')] = [] @ ''TYPE'' # [''TRACKER'']
      \<and> (\<forall>k'\<in>set []. toLowerCase (trim k') \<notin> toLowerCase ` set [''Tracker'', ''Type''])
      \<and> toLowerCase (trim ''TYPE'') \<in> toLowerCase ` set [''Tracker'', ''Type'']
      \<and> obj_get [(''TYPE'', ''Bug''), (''TRACKER'', ''Support'')] ''TYPE'' = Some ''Bug''
      \<and> ''Bug'' \<noteq> []"
    by code_simp
  then show "getColumnValue [(''TYPE'', ''Bug''), (''TRACKER'', ''Support'')] [''Tracker'', ''Type''] = trim ''Bug''"
    using getColumnValue_precedence [where possibleNames = "[''Tracker'', ''Type'']"
        and kpre = "[]" and k = "''TYPE''" and kpost = "[''TRACKER'']"
        and row = "[(''TYPE'', ''Bug''), (''TRACKER'', ''Support'')]" and w = "''Bug''"]
    by blast
qed

text \<open>
  The claim as stated fails in the second pass: both \<open>Tracker\<close> and \<open>Type\<close> match a key
  of the row, \<open>Tracker\<close> is listed first, and the value under \<open>TYPE\<close> is returned because
  that key comes first in the row.
\<close>

theorem getColumnValue_later_alias_wins:
  "getType [(''TYPE'', ''Bug''), (''TRACKER'', ''Support'')] = ''Bug''
   \<and> aliasHit (toLowerCase (trim ''TRACKER'')) [''Tracker'']
   \<and> aliasHit (toLowerCase (trim ''TYPE'')) [''Type'']"
  by code_simp

text \<open>
  Claim C1 says that a key whose value is the empty string counts as absent, so that the
  result is \<open>Unknown\<close> and never the empty string. The first pass skips the empty value,
  but the second pass matches the same key again and returns its value without the test:
  a row whose only status cell is empty resolves to the empty string.
\<close>

theorem getColumnValue_empty_cell:
  "getStatus [(''Status'', '''')] = ''''"
  by code_simp

section \<open>Properties of the Date Parser\<close>

lemma takeWhile_digits_append:
  assumes "list_all isDigit g" and "r = [] \<or> \<not> isDigit (hd r)"
  shows "takeWhile isDigit (g @ r) = g"
  using assms by (induction g) (auto simp: takeWhile_eq_Nil_iff)

lemma digitRun_append:
  assumes "list_all isDigit g" and "lo \<le> length g" and "length g \<le> hi"
    and "r = [] \<or> \<not> isDigit (hd r)"
  shows "digitRun lo hi (g @ r) = Some (g, r)"
proof -
  have "take hi (g @ r) = g @ take (hi - length g) r"
    using assms(3) by simp
  moreover have "take (hi - length g) r = [] \<or> \<not> isDigit (hd (take (hi - length g) r))"
    using assms(4) by (cases r; cases "hi - length g") auto
  ultimately have "takeWhile isDigit (take hi (g @ r)) = g"
    using takeWhile_digits_append [OF assms(1)] by simp
  then show ?thesis
    using assms(2) by (simp add: digitRun_def)
qed

lemma spaceRun_append:
  assumes "w \<noteq> []" and "list_all isSpace w" and "r = [] \<or> \<not> isSpace (hd r)"
  shows "spaceRun (w @ r) = Some r"
proof -
  obtain x w' where w: "w = x # w'"
    using assms(1) by (cases w) auto
  have "dropWhile isSpace (w' @ r) = r"
    using assms(2,3) unfolding w by (induction w') (auto simp: dropWhile_eq_self_iff)
  then show ?thesis
    using assms(2) by (simp add: spaceRun_def w)
qed

lemma parseInt_digits:
  assumes "g \<noteq> []" and "list_all isDigit g"
  shows "parseInt g = Some (decimal g)"
proof -
  have tw: "takeWhile isDigit g = g"
    using assms(2) by (simp add: takeWhile_eq_all_conv list_all_iff)
  show ?thesis
    unfolding parseInt_def Let_def tw using assms(1) by simp
qed

lemma not_digit_punct:
  "\<not> isDigit (CHR ''/'')" "\<not> isDigit (CHR '':'')" "\<not> isSpace (CHR ''/'')" "\<not> isSpace (CHR '':'')"
  by (simp_all add: isDigit_def isSpace_def)

lemma digit_not_space: "isDigit c \<Longrightarrow> \<not> isSpace c"
  by (auto simp: isDigit_def isSpace_def Let_def)

lemma space_not_digit: "isSpace c \<Longrightarrow> \<not> isDigit c"
  by (auto simp: isDigit_def isSpace_def Let_def)

lemma match1_shape:
  assumes m: "list_all isDigit m" "length m = 1 \<or> length m = 2"
    and d: "list_all isDigit d" "length d = 1 \<or> length d = 2"
    and y: "list_all isDigit y" "length y = 4"
    and w: "w \<noteq> []" "list_all isSpace w"
    and h: "list_all isDigit h" "length h = 1 \<or> length h = 2"
    and mi: "list_all isDigit mi" "length mi = 2"
  shows "match1 (m @ ''/'' @ d @ ''/'' @ y @ w @ h @ '':'' @ mi) = Some (m, d, y)"
proof -
  have hne: "h \<noteq> []" using h(2) by auto
  have wh: "\<not> isDigit (hd w)" using w by (cases w) (auto simp: space_not_digit)
  have hw: "\<not> isSpace (hd h)" using h hne by (cases h) (auto simp: digit_not_space)
  have 1: "digitRun 1 2 (m @ ''/'' @ d @ ''/'' @ y @ w @ h @ '':'' @ mi)
      = Some (m, ''/'' @ d @ ''/'' @ y @ w @ h @ '':'' @ mi)"
    using m by (intro digitRun_append) (auto simp: not_digit_punct)
  have 2: "digitRun 1 2 (d @ ''/'' @ y @ w @ h @ '':'' @ mi) = Some (d, ''/'' @ y @ w @ h @ '':'' @ mi)"
    using d by (intro digitRun_append) (auto simp: not_digit_punct)
  have 3: "digitRun 4 4 (y @ w @ h @ '':'' @ mi) = Some (y, w @ h @ '':'' @ mi)"
    using y w(1) wh by (intro digitRun_append) auto
  have 4: "spaceRun (w @ h @ '':'' @ mi) = Some (h @ '':'' @ mi)"
    using w hne hw by (intro spaceRun_append) auto
  have 5: "digitRun 1 2 (h @ '':'' @ mi) = Some (h, '':'' @ mi)"
    using h by (intro digitRun_append) (auto simp: not_digit_punct)
  have 6: "digitRun 2 2 (mi @ []) = Some (mi, [])"
    using mi by (intro digitRun_append) auto
  show ?thesis
    using 1 2 3 4 5 6 by (simp add: match1_def lit_def)
qed

lemma match2_shape:
  assumes d: "list_all isDigit d" "length d = 1 \<or> length d = 2"
    and m: "list_all isDigit m" "length m = 1 \<or> length m = 2"
    and y: "list_all isDigit y" "length y = 2"
  shows "match2 (d @ ''/'' @ m @ ''/'' @ y) = Some (d, m, y)"
proof -
  have 1: "digitRun 1 2 (d @ ''/'' @ m @ ''/'' @ y) = Some (d, ''/'' @ m @ ''/'' @ y)"
    using d by (intro digitRun_append) (auto simp: not_digit_punct)
  have 2: "digitRun 1 2 (m @ ''/'' @ y) = Some (m, ''/'' @ y)"
    using m by (intro digitRun_append) (auto simp: not_digit_punct)
  have 3: "digitRun 2 2 (y @ []) = Some (y, [])"
    using y by (intro digitRun_append) auto
  show ?thesis
    using 1 2 3 by (simp add: match2_def lit_def)
qed

lemma parseDate_match1:
  assumes "match1 s = Some (month, day, year)"
    and "month \<noteq> []" "list_all isDigit month" "day \<noteq> []" "list_all isDigit day"
    and "year \<noteq> []" "list_all isDigit year"
    and "s \<noteq> []" "s \<noteq> ''Unknown''" "s \<noteq> ''-''"
  shows "parseDate rt (Some s) = Some (newDate rt (decimal year) (decimal month - 1) (decimal day))"
  using assms by (simp add: parseDate_def parseInt_digits)

lemma parseDate_match2:
  assumes "match1 s = None" "match2 s = Some (day, month, year)"
    and "month \<noteq> []" "list_all isDigit month" "day \<noteq> []" "list_all isDigit day"
    and "year \<noteq> []" "list_all isDigit year"
    and "s \<noteq> []" "s \<noteq> ''Unknown''" "s \<noteq> ''-''"
  shows "parseDate rt (Some s) =
    Some (newDate rt (if decimal year > 50 then 1900 + decimal year else 2000 + decimal year)
      (decimal month - 1) (decimal day))"
  using assms by (simp add: parseDate_def parseInt_digits Let_def)

lemma digitRun_short: "length s < lo \<Longrightarrow> digitRun lo hi s = None"
proof -
  assume a: "length s < lo"
  have "length (takeWhile isDigit (take hi s)) \<le> length (take hi s)"
    by (rule length_takeWhile_le)
  then have "length (takeWhile isDigit (take hi s)) < lo"
    using a by simp
  then show ?thesis
    by (simp add: digitRun_def Let_def)
qed

lemma match1_rejects_short_year:
  assumes d: "list_all isDigit d" "length d = 1 \<or> length d = 2"
    and m: "list_all isDigit m" "length m = 1 \<or> length m = 2"
    and y: "length y = 2"
  shows "match1 (d @ ''/'' @ m @ ''/'' @ y) = None"
proof -
  have 1: "digitRun 1 2 (d @ ''/'' @ m @ ''/'' @ y) = Some (d, ''/'' @ m @ ''/'' @ y)"
    using d by (intro digitRun_append) (auto simp: not_digit_punct)
  have 2: "digitRun 1 2 (m @ ''/'' @ y) = Some (m, ''/'' @ y)"
    using m by (intro digitRun_append) (auto simp: not_digit_punct)
  have 3: "digitRun 4 4 y = None"
    using y by (intro digitRun_short) simp
  show ?thesis
    using 1 2 3 by (simp add: match1_def lit_def)
qed

lemma slash_not_sentinel:
  assumes "CHR ''/'' \<in> set s"
  shows "s \<noteq> [] \<and> s \<noteq> ''Unknown'' \<and> s \<noteq> ''-''"
  using assms by auto

lemma digits_nonempty: "length g = 1 \<or> length g = 2 \<Longrightarrow> g \<noteq> []"
  by auto

text \<open>
  Claim C3. A string of the shape \<open>M/D/YYYY H:MM\<close> (one or two digits for month, day
  and hour, four for the year, two for the minutes, white space before the time) is read
  month-first and becomes \<open>new Date(year, month - 1, day)\<close>, the time ignored. A string
  of the shape \<open>D/M/YY\<close> is read day-first, a year above 50 in the 1900s and any other
  in the 2000s. \<open>3/5/2024 10:30\<close> and \<open>5/3/24\<close> both give 5 March 2024, which is day
  19787 of the epoch at local midnight. A missing value and the strings \<open>\<close> (empty),
  \<open>Unknown\<close> and \<open>-\<close> give \<open>null\<close> whatever the host would make of them. A string
  that matches neither pattern and that the host's \<open>Date\<close> constructor rejects gives
  \<open>null\<close>; \<open>not a date\<close> matches neither pattern.
\<close>

theorem parseDate_format_policy:
  "(list_all isDigit m \<and> (length m = 1 \<or> length m = 2)
      \<and> list_all isDigit d \<and> (length d = 1 \<or> length d = 2)
      \<and> list_all isDigit y \<and> length y = 4
      \<and> w \<noteq> [] \<and> list_all isSpace w
      \<and> list_all isDigit h \<and> (length h = 1 \<or> length h = 2)
      \<and> list_all isDigit mi \<and> length mi = 2
     \<longrightarrow> parseDate rt (Some (m @ ''/'' @ d @ ''/'' @ y @ w @ h @ '':'' @ mi))
         = Some (newDate rt (decimal y) (decimal m - 1) (decimal d)))
   \<and> (list_all isDigit d' \<and> (length d' = 1 \<or> length d' = 2)
      \<and> list_all isDigit m' \<and> (length m' = 1 \<or> length m' = 2)
      \<and> list_all isDigit y' \<and> length y' = 2
     \<longrightarrow> parseDate rt (Some (d' @ ''/'' @ m' @ ''/'' @ y'))
         = Some (newDate rt (if decimal y' > 50 then 1900 + decimal y' else 2000 + decimal y')
                  (decimal m' - 1) (decimal d')))
   \<and> parseDate rt (Some ''3/5/2024 10:30'') = Some (newDate rt 2024 (3 - 1) 5)
   \<and> parseDate rt (Some ''5/3/24'') = Some (newDate rt 2024 (3 - 1) 5)
   \<and> parseDate rt (Some ''5/3/51'') = Some (newDate rt 1951 (3 - 1) 5)
   \<and> newDate rt 2024 (3 - 1) 5 = UTC rt (MakeDay 2024 2 5 * msPerDay)
   \<and> MakeDay 2024 2 5 = MakeDay 1970 0 1 + 19787
   \<and> parseDate rt None = None
   \<and> parseDate rt (Some '''') = None
   \<and> parseDate rt (Some ''Unknown'') = None
   \<and> parseDate rt (Some ''-'') = None
   \<and> (match1 s = None \<and> match2 s = None \<and> Date_parse rt s = None \<longrightarrow> parseDate rt (Some s) = None)
   \<and> match1 ''not a date'' = None \<and> match2 ''not a date'' = None
   \<and> (Date_parse rt ''not a date'' = None \<longrightarrow> parseDate rt (Some ''not a date'') = None)"
proof (intro conjI impI)
  assume a: "list_all isDigit m \<and> (length m = 1 \<or> length m = 2)
      \<and> list_all isDigit d \<and> (length d = 1 \<or> length d = 2)
      \<and> list_all isDigit y \<and> length y = 4
      \<and> w \<noteq> [] \<and> list_all isSpace w
      \<and> list_all isDigit h \<and> (length h = 1 \<or> length h = 2)
      \<and> list_all isDigit mi \<and> length mi = 2"
  let ?s = "m @ ''/'' @ d @ ''/'' @ y @ w @ h @ '':'' @ mi"
  have "match1 ?s = Some (m, d, y)"
    using a by (intro match1_shape) simp_all
  moreover have "?s \<noteq> [] \<and> ?s \<noteq> ''Unknown'' \<and> ?s \<noteq> ''-''"
    by (rule slash_not_sentinel) simp
  moreover have "m \<noteq> []" "d \<noteq> []" "y \<noteq> []"
    using a by auto
  ultimately show "parseDate rt (Some ?s) = Some (newDate rt (decimal y) (decimal m - 1) (decimal d))"
    using a by (intro parseDate_match1) simp_all
next
  assume a: "list_all isDigit d' \<and> (length d' = 1 \<or> length d' = 2)
      \<and> list_all isDigit m' \<and> (length m' = 1 \<or> length m' = 2)
      \<and> list_all isDigit y' \<and> length y' = 2"
  let ?s = "d' @ ''/'' @ m' @ ''/'' @ y'"
  have "match1 ?s = None"
    using a by (intro match1_rejects_short_year) simp_all
  moreover have "match2 ?s = Some (d', m', y')"
    using a by (intro match2_shape) simp_all
  moreover have "?s \<noteq> [] \<and> ?s \<noteq> ''Unknown'' \<and> ?s \<noteq> ''-''"
    by (rule slash_not_sentinel) simp
  moreover have "m' \<noteq> []" "d' \<noteq> []" "y' \<noteq> []"
    using a by auto
  ultimately show "parseDate rt (Some ?s)
         = Some (newDate rt (if decimal y' > 50 then 1900 + decimal y' else 2000 + decimal y')
                  (decimal m' - 1) (decimal d'))"
    using a by (intro parseDate_match2) simp_all
next
  have "match1 ''3/5/2024 10:30'' = Some (''3'', ''5'', ''2024'')"
    by code_simp
  moreover have "parseInt ''3'' = Some 3" "parseInt ''5'' = Some 5" "parseInt ''2024'' = Some 2024"
    by code_simp+
  ultimately show "parseDate rt (Some ''3/5/2024 10:30'') = Some (newDate rt 2024 (3 - 1) 5)"
    by (simp add: parseDate_def)
next
  have "match1 ''5/3/24'' = None" "match2 ''5/3/24'' = Some (''5'', ''3'', ''24'')"
    by code_simp+
  moreover have "parseInt ''3'' = Some 3" "parseInt ''5'' = Some 5" "parseInt ''24'' = Some 24"
    by code_simp+
  ultimately show "parseDate rt (Some ''5/3/24'') = Some (newDate rt 2024 (3 - 1) 5)"
    by (simp add: parseDate_def)
next
  have "match1 ''5/3/51'' = None" "match2 ''5/3/51'' = Some (''5'', ''3'', ''51'')"
    by code_simp+
  moreover have "parseInt ''3'' = Some 3" "parseInt ''5'' = Some 5" "parseInt ''51'' = Some 51"
    by code_simp+
  ultimately show "parseDate rt (Some ''5/3/51'') = Some (newDate rt 1951 (3 - 1) 5)"
    by (simp add: parseDate_def)
next
  show "newDate rt 2024 (3 - 1) 5 = UTC rt (MakeDay 2024 2 5 * msPerDay)"
    by (simp add: newDate_def)
next
  show "MakeDay 2024 2 5 = MakeDay 1970 0 1 + 19787"
    by code_simp
next
  show "parseDate rt None = None" "parseDate rt (Some '''') = None"
    "parseDate rt (Some ''Unknown'') = None" "parseDate rt (Some ''-'') = None"
    by (simp_all add: parseDate_def)
next
  assume "match1 s = None \<and> match2 s = None \<and> Date_parse rt s = None"
  then show "parseDate rt (Some s) = None"
    by (simp add: parseDate_def)
next
  show m1: "match1 ''not a date'' = None" and m2: "match2 ''not a date'' = None"
    by code_simp+
  assume "Date_parse rt ''not a date'' = None"
  then show "parseDate rt (Some ''not a date'') = None"
    using m1 m2 by (simp add: parseDate_def)
qed

theorem parseDate_format_policy_witness:
  "parseDate exampleHost (Some (''12'' @ ''/'' @ ''31'' @ ''/'' @ ''1999'' @ '' '' @ ''9'' @ '':'' @ ''05''))
     = Some (newDate exampleHost (decimal ''1999'') (decimal ''12'' - 1) (decimal ''31''))
   \<and> parseDate exampleHost (Some (''31'' @ ''/'' @ ''12'' @ ''/'' @ ''99''))
     = Some (newDate exampleHost (if decimal ''99'' > 50 then 1900 + decimal ''99'' else 2000 + decimal ''99'')
         (decimal ''12'' - 1) (decimal ''31''))
   \<and> parseDate exampleHost (Some ''tomorrow'') = None
   \<and> parseDate exampleHost (Some ''not a date'') = None"
proof -
  have h1: "list_all isDigit ''12'' \<and> (length ''12'' = 1 \<or> length ''12'' = 2)
      \<and> list_all isDigit ''31'' \<and> (length ''31'' = 1 \<or> length ''31'' = 2)
      \<and> list_all isDigit ''1999'' \<and> length ''1999'' = 4
      \<and> '' '' \<noteq> [] \<and> list_all isSpace '' ''
      \<and> list_all isDigit ''9'' \<and> (length ''9'' = 1 \<or> length ''9'' = 2)
      \<and> list_all isDigit ''05'' \<and> length ''05'' = 2"
    by code_simp
  have h2: "list_all isDigit ''31'' \<and> (length ''31'' = 1 \<or> length ''31'' = 2)
      \<and> list_all isDigit ''12'' \<and> (length ''12'' = 1 \<or> length ''12'' = 2)
      \<and> list_all isDigit ''99'' \<and> length ''99'' = 2"
    by code_simp
  have h3: "match1 ''tomorrow'' = None \<and> match2 ''tomorrow'' = None \<and> Date_parse exampleHost ''tomorrow'' = None"
    by code_simp
  have h4: "Date_parse exampleHost ''not a date'' = None"
    by code_simp
  show ?thesis
    using h1 h2 h3 h4
      parseDate_format_policy [where rt = exampleHost and m = "''12''" and d = "''31''" and y = "''1999''"
        and w = "'' ''" and h = "''9''" and mi = "''05''" and d' = "''31''" and m' = "''12''"
        and y' = "''99''" and s = "''tomorrow''"]
    by blast
qed

section \<open>Properties of the decimal rendering\<close>

lemma digitsOf_digits: "0 \<le> n \<Longrightarrow> list_all isDigit (digitsOf n) \<and> digitsOf n \<noteq> []"
proof (induction n rule: digitsOf.induct)
  case (1 n)
  show ?case
  proof (cases "n < 10")
    case True
    then have "isDigit (char_of (48 + n))"
      using 1(2) by (simp add: isDigit_def Let_def nat_add_distrib)
    then show ?thesis
      using True by (simp add: digitsOf.simps [of n])
  next
    case False
    have "0 \<le> n mod 10" "n mod 10 < 10" by simp_all
    then have "isDigit (char_of (48 + n mod 10))"
      by (simp add: isDigit_def Let_def)
    moreover have "list_all isDigit (digitsOf (n div 10))"
      using 1 False by simp
    ultimately show ?thesis
      using False by (simp add: digitsOf.simps [of n])
  qed
qed

lemma decimal_snoc: "decimal (xs @ [c]) = 10 * decimal xs + digitVal c"
  by (simp add: decimal_def)

lemma digitVal_char_of: "0 \<le> d \<Longrightarrow> d < 10 \<Longrightarrow> digitVal (char_of (48 + d)) = d"
  by (simp add: digitVal_def)

lemma decimal_digitsOf: "0 \<le> n \<Longrightarrow> decimal (digitsOf n) = n"
proof (induction n rule: digitsOf.induct)
  case (1 n)
  show ?case
  proof (cases "n < 10")
    case True
    then show ?thesis
      using 1(2) digitVal_char_of [of n] by (simp add: digitsOf.simps [of n] decimal_def)
  next
    case False
    have "digitVal (char_of (48 + n mod 10)) = n mod 10"
      by (rule digitVal_char_of) simp_all
    moreover have "decimal (digitsOf (n div 10)) = n div 10"
      using 1 False by simp
    ultimately show ?thesis
      using False by (simp add: digitsOf.simps [of n] decimal_snoc)
  qed
qed

lemma parseInt_toString: "0 \<le> n \<Longrightarrow> parseInt (toString n) = Some n"
  using digitsOf_digits [of n] decimal_digitsOf [of n]
  by (simp add: toString_def parseInt_digits)


section \<open>Properties of the binary64 operations\<close>

lemma normShift_scaled: "0 < a \<Longrightarrow> 2 ^ 52 * b \<le> a * 2 ^ normShift a b k"
proof (induction a b k rule: normShift.induct)
  case (1 a b k)
  show ?case
  proof (cases "2 ^ 52 * b \<le> a * 2 ^ k")
    case True
    then show ?thesis
      by (simp add: normShift.simps [of a b k])
  next
    case False
    then have "normShift a b k = normShift a b (Suc k)"
      using 1(2) by (simp add: normShift.simps [of a b k])
    then show ?thesis
      using 1 False by simp
  qed
qed

lemma normShift_zero: "normShift 0 b k = k"
  by (simp add: normShift.simps [of 0 b k])

lemma roundHalfEven_near: "\<bar>of_int (roundHalfEven q) - q\<bar> \<le> 1 / 2"
proof -
  have "of_int \<lfloor>q\<rfloor> \<le> q" "q < of_int \<lfloor>q\<rfloor> + 1"
    by linarith+
  then show ?thesis
    by (auto simp: roundHalfEven_def Let_def)
qed

lemma fdiv_zero: "fdiv 0 b = 0"
  by (simp add: fdiv_def normShift_zero roundHalfEven_def)

lemma fdiv_error:
  assumes a: "0 < a" and b: "0 < b"
  shows "\<bar>fdiv a b - of_int a / of_int b\<bar> \<le> (of_int a / of_int b) / 2 ^ 53"
proof -
  define k where "k = normShift a b 0"
  define y :: rat where "y = of_int (a * 2 ^ k) / of_int b"
  define m where "m = roundHalfEven y"
  have x: "fdiv a b = of_int m / 2 ^ k"
    by (simp add: fdiv_def k_def y_def m_def Let_def)
  have q: "of_int a / of_int b = y / 2 ^ k"
    by (simp add: y_def)
  have "2 ^ 52 * b \<le> a * 2 ^ k"
    unfolding k_def using a by (rule normShift_scaled)
  then have "(of_int (2 ^ 52 * b) :: rat) \<le> of_int (a * 2 ^ k)"
    by (simp only: of_int_le_iff)
  then have "(2 ^ 52 :: rat) * of_int b \<le> of_int (a * 2 ^ k)"
    by simp
  then have y52: "(2 ^ 52 :: rat) \<le> y"
    unfolding y_def using b by (simp add: pos_le_divide_eq)
  have near: "\<bar>of_int m - y\<bar> \<le> 1 / 2"
    unfolding m_def by (rule roundHalfEven_near)
  have "\<bar>fdiv a b - of_int a / of_int b\<bar> = \<bar>of_int m - y\<bar> / 2 ^ k"
    unfolding x q by (simp add: diff_divide_distrib [symmetric])
  also have "\<dots> \<le> (1 / 2) / 2 ^ k"
    by (rule divide_right_mono [OF near]) simp
  also have "\<dots> \<le> (y / 2 ^ 53) / 2 ^ k"
  proof (rule divide_right_mono)
    show "1 / 2 \<le> y / 2 ^ 53"
      using y52 by simp
    show "(0::rat) \<le> 2 ^ k"
      by simp
  qed
  also have "\<dots> = (of_int a / of_int b) / 2 ^ 53"
    unfolding q by simp
  finally show ?thesis .
qed

lemma fdiv_nonneg:
  assumes "0 \<le> a" and "0 < b"
  shows "0 \<le> fdiv a b"
proof (cases "a = 0")
  case True
  then show ?thesis by (simp add: fdiv_zero)
next
  case False
  then have a: "0 < a" using assms(1) by simp
  define q :: rat where "q = of_int a / of_int b"
  have q: "0 \<le> q"
    using a assms(2) by (simp add: q_def)
  have "q * 1 \<le> q * 2 ^ 53"
    by (rule mult_left_mono) (use q in simp_all)
  then have "q / 2 ^ 53 \<le> q"
    by (simp add: field_simps)
  moreover have "\<bar>fdiv a b - q\<bar> \<le> q / 2 ^ 53"
    unfolding q_def by (rule fdiv_error [OF a assms(2)])
  ultimately show ?thesis
    by linarith
qed








section \<open>Properties of the Resolution-Time Calculator\<close>

lemma getClosedOn_not_Unknown: "getClosedOn row \<noteq> ''Unknown''"
  by (simp add: getClosedOn_def Let_def)

lemma parseDate_dash: "parseDate rt (Some ''-'') = None"
  by (simp add: parseDate_def)

lemma getResolutionDays_cases:
  "getResolutionDays rt row =
     (case (parseDate rt (Some (getCreatedOn row)), parseDate rt (Some (getClosedOn row))) of
        (Some c, Some z) \<Rightarrow> toString \<lceil>fdiv \<bar>fsub z c\<bar> msPerDay\<rceil>
      | _ \<Rightarrow> ''-'')"
  by (auto simp: getResolutionDays_def Let_def getClosedOn_not_Unknown parseDate_dash
      split: option.splits)

lemma days_nonneg: "0 \<le> \<lceil>fdiv \<bar>fsub z c\<bar> msPerDay\<rceil>"
proof -
  have "0 \<le> fdiv \<bar>fsub z c\<bar> msPerDay"
    by (rule fdiv_nonneg) (simp_all add: msPerDay_def)
  then show ?thesis
    by simp
qed




text \<open>
  Beyond that range the subtraction rounds. Between the earliest valid date and a date
  one millisecond after day 50000000 the program counts 150000000 days where the exact
  quotient has the ceiling 150000001.
\<close>

lemma days_beyond_exact_range:
  "\<lceil>fdiv \<bar>fsub 4320000000000001 (- 8640000000000000)\<bar> msPerDay\<rceil> = 150000000
   \<and> \<lceil>(of_int \<bar>4320000000000001 - (- 8640000000000000)\<bar> :: rat) / of_int msPerDay\<rceil> = 150000001"
  by code_simp

section \<open>The two variants of the calculator\<close>

lemma getColumnValue_first_alias:
  assumes "obj_get row a = Some v" and "v \<noteq> []"
  shows "getColumnValue row (a # rest) = trim v"
  using assms by (simp add: getColumnValue_def)

lemma parseDate_Unknown: "parseDate rt (Some ''Unknown'') = None"
  by (simp add: parseDate_def)

text \<open>
  Claim C5, as the code has it. The remote variant does not use the Date Parser: it reads
  \<open>created_on\<close> and \<open>closed_on\<close> and hands them to the host's \<open>Date\<close> constructor.
  For a record in which both fields are present and not empty the two variants return
  the same string whenever the host's constructor reads each of the two strings as the
  Date Parser reads its trimmed form, which is the case for every trimmed string that is
  no sentinel and matches neither pattern.
\<close>

theorem getResolutionDays_variants_agree:
  assumes "obj_get row ''created_on'' = Some c" and "c \<noteq> []"
    and "obj_get row ''closed_on'' = Some z" and "z \<noteq> []"
    and "Date_parse rt c = parseDate rt (Some (trim c))"
    and "Date_parse rt z = parseDate rt (Some (trim z))"
  shows "getResolutionDays_remote rt row = getResolutionDays rt row"
proof -
  have "getCreatedOn row = (if trim c = ''Unknown'' then ''-'' else trim c)"
    using assms(1,2) by (simp add: getCreatedOn_def getColumnValue_first_alias)
  then have c: "parseDate rt (Some (getCreatedOn row)) = Date_parse rt c"
    using assms(5) by (simp add: parseDate_Unknown parseDate_dash)
  have "getClosedOn row = (if trim z = ''Unknown'' then ''-'' else trim z)"
    using assms(3,4) by (simp add: getClosedOn_def getColumnValue_first_alias)
  then have z: "parseDate rt (Some (getClosedOn row)) = Date_parse rt z"
    using assms(6) by (simp add: parseDate_Unknown parseDate_dash)
  have "getResolutionDays_remote rt row =
     (case (Date_parse rt c, Date_parse rt z) of
        (Some c', Some z') \<Rightarrow> toString \<lceil>fdiv \<bar>fsub z' c'\<bar> msPerDay\<rceil>
      | _ \<Rightarrow> ''-'')"
    using assms(1-4) by (simp add: getResolutionDays_remote_def falsy_def Let_def split: option.splits)
  then show ?thesis
    by (simp add: getResolutionDays_cases c z)
qed

theorem getResolutionDays_variants_agree_witness:
  "getResolutionDays_remote exampleHost [(''created_on'', ''1/1/2024''), (''closed_on'', ''1/3/2024'')]
     = getResolutionDays exampleHost [(''created_on'', ''1/1/2024''), (''closed_on'', ''1/3/2024'')]"
proof -
  have "obj_get [(''created_on'', ''1/1/2024''), (''closed_on'', ''1/3/2024'')] ''created_on'' = Some ''1/1/2024''"
    and "''1/1/2024'' \<noteq> []"
    and "obj_get [(''created_on'', ''1/1/2024''), (''closed_on'', ''1/3/2024'')] ''closed_on'' = Some ''1/3/2024''"
    and "''1/3/2024'' \<noteq> []"
    and "Date_parse exampleHost ''1/1/2024'' = parseDate exampleHost (Some (trim ''1/1/2024''))"
    and "Date_parse exampleHost ''1/3/2024'' = parseDate exampleHost (Some (trim ''1/3/2024''))"
    by code_simp+
  then show ?thesis
    by (rule getResolutionDays_variants_agree)
qed

text \<open>
  The claim as stated fails on strings of the shape \<open>D/M/YY\<close>: the local variant reads
  \<open>1/1/24\<close> and \<open>2/1/24\<close> day-first, one day apart, and the remote variant leaves them
  to the host, which reads them month-first, 31 days apart.
\<close>

theorem getResolutionDays_variants_differ:
  "getResolutionDays exampleHost [(''created_on'', ''1/1/24''), (''closed_on'', ''2/1/24'')] = ''1''
   \<and> getResolutionDays_remote exampleHost [(''created_on'', ''1/1/24''), (''closed_on'', ''2/1/24'')] = ''31''"
  by code_simp


section \<open>Properties of the Aggregator\<close>

lemma sum_obj_set_bump:
  "sum_list (map snd (obj_set ob k ((case obj_get ob k of None \<Rightarrow> 0 | Some n \<Rightarrow> n) + 1)))
     = sum_list (map snd ob) + (1::nat)"
  by (induction ob) (auto simp: obj_get_def)

lemma sum_plainTally: "sum_list (map snd (plainTally g acc row)) = sum_list (map snd acc) + 1"
  unfolding plainTally_def Let_def by (rule sum_obj_set_bump)

lemma sum_foldl_plainTally:
  "sum_list (map snd (foldl (plainTally g) acc data)) = sum_list (map snd acc) + length data"
  by (induction data arbitrary: acc) (simp_all add: sum_plainTally)

lemma keys_obj_set:
  "map fst (obj_set ob k v) = (if k \<in> fst ` set ob then map fst ob else map fst ob @ [k])"
  by (induction ob) auto

lemma keys_plainTally:
  "map fst (plainTally g acc row) = (if g row \<in> fst ` set acc then map fst acc else map fst acc @ [g row])"
  by (simp add: plainTally_def Let_def keys_obj_set)

lemma set_keys_foldl_plainTally:
  "fst ` set (foldl (plainTally g) acc data) = fst ` set acc \<union> g ` set data"
proof (induction data arbitrary: acc)
  case Nil
  show ?case by simp
next
  case (Cons row data)
  have "set (map fst (plainTally g acc row)) = insert (g row) (fst ` set acc)"
    by (auto simp: keys_plainTally)
  then have "fst ` set (plainTally g acc row) = insert (g row) (fst ` set acc)"
    by simp
  then show ?case
    using Cons.IH [of "plainTally g acc row"] by auto
qed

lemma distinct_keys_foldl_plainTally:
  "distinct (map fst acc) \<Longrightarrow> distinct (map fst (foldl (plainTally g) acc data))"
proof (induction data arbitrary: acc)
  case Nil
  then show ?case by simp
next
  case (Cons row data)
  have "distinct (map fst (plainTally g acc row))"
    using Cons.prems by (simp add: keys_plainTally)
  then show ?case
    using Cons.IH by simp
qed

lemma map_of_obj_set: "map_of (obj_set ob k v) = (map_of ob)(k \<mapsto> v)"
  by (induction ob) (auto simp: fun_eq_iff)

lemma count_plainTally:
  "(case obj_get (plainTally g acc row) k of None \<Rightarrow> 0 | Some n \<Rightarrow> n)
     = (case obj_get acc k of None \<Rightarrow> 0 | Some n \<Rightarrow> n) + (if g row = k then 1 else 0)"
  by (simp add: plainTally_def Let_def map_of_obj_set obj_get_def)

lemma count_foldl_plainTally:
  "(case obj_get (foldl (plainTally g) acc data) k of None \<Rightarrow> 0 | Some n \<Rightarrow> n)
     = (case obj_get acc k of None \<Rightarrow> 0 | Some n \<Rightarrow> n) + length (filter (\<lambda>row. g row = k) data)"
  by (induction data arbitrary: acc) (simp_all add: count_plainTally)

lemma bucket_is_count:
  assumes "(k, n) \<in> set (foldl (plainTally g) [] data)"
  shows "n = length (filter (\<lambda>row. g row = k) data) \<and> 1 \<le> n"
proof -
  have "distinct (map fst (foldl (plainTally g) [] data))"
    by (rule distinct_keys_foldl_plainTally) simp
  then have "obj_get (foldl (plainTally g) [] data) k = Some n"
    using assms by (simp add: obj_get_def)
  then have n: "n = length (filter (\<lambda>row. g row = k) data)"
    using count_foldl_plainTally [of g "[]" data k] by (simp add: obj_get_def)
  have "k \<in> g ` set data"
    using assms set_keys_foldl_plainTally [of g "[]" data] by force
  then have "filter (\<lambda>row. g row = k) data \<noteq> []"
    by (auto simp: filter_empty_conv)
  then show ?thesis
    using n by (simp add: Suc_le_eq)
qed

lemma remdups_snoc: "remdups (xs @ [x]) = filter (\<lambda>k. k \<noteq> x) (remdups xs) @ [x]"
  by (induction xs) auto

lemma keys_foldl_plainTally:
  "map fst (foldl (plainTally g) acc data)
     = map fst acc @ filter (\<lambda>k. k \<notin> fst ` set acc) (rev (remdups (rev (map g data))))"
proof (induction data arbitrary: acc)
  case Nil
  show ?case by simp
next
  case (Cons row data)
  let ?R = "rev (remdups (rev (map g data)))"
  have R: "rev (remdups (rev (map g (row # data)))) = g row # filter (\<lambda>k. k \<noteq> g row) ?R"
    by (simp add: remdups_snoc rev_filter)
  show ?case
  proof (cases "g row \<in> fst ` set acc")
    case True
    have f: "filter (\<lambda>k. k \<notin> fst ` set acc) (filter (\<lambda>k. k \<noteq> g row) ?R)
        = filter (\<lambda>k. k \<notin> fst ` set acc) ?R"
      using True by (auto intro: filter_cong)
    have k: "map fst (plainTally g acc row) = map fst acc"
      using True by (simp add: keys_plainTally)
    then have "set (map fst (plainTally g acc row)) = set (map fst acc)"
      by simp
    then have i: "fst ` set (plainTally g acc row) = fst ` set acc"
      by simp
    have "map fst (foldl (plainTally g) acc (row # data))
        = map fst acc @ filter (\<lambda>k. k \<notin> fst ` set acc) ?R"
      using Cons.IH [of "plainTally g acc row"] by (simp add: k i)
    also have "\<dots> = map fst acc @ filter (\<lambda>k. k \<notin> fst ` set acc) (g row # filter (\<lambda>k. k \<noteq> g row) ?R)"
      using True f by simp
    finally show ?thesis
      unfolding R .
  next
    case False
    have k: "map fst (plainTally g acc row) = map fst acc @ [g row]"
      using False by (simp add: keys_plainTally)
    then have "set (map fst (plainTally g acc row)) = set (map fst acc @ [g row])"
      by simp
    then have i: "fst ` set (plainTally g acc row) = insert (g row) (fst ` set acc)"
      by simp
    have f: "filter (\<lambda>k. k \<notin> insert (g row) (fst ` set acc)) ?R
        = filter (\<lambda>k. k \<notin> fst ` set acc) (filter (\<lambda>k. k \<noteq> g row) ?R)"
      by (auto intro: filter_cong)
    have "map fst (foldl (plainTally g) acc (row # data))
        = map fst acc @ [g row] @ filter (\<lambda>k. k \<notin> insert (g row) (fst ` set acc)) ?R"
      using Cons.IH [of "plainTally g acc row"] by (simp add: k i)
    also have "\<dots> = map fst acc @ filter (\<lambda>k. k \<notin> fst ` set acc) (g row # filter (\<lambda>k. k \<noteq> g row) ?R)"
      using False f by simp
    finally show ?thesis
      unfolding R .
  qed
qed

lemma mset_Object_entries: "mset (Object_entries ob) = mset ob"
  by (simp add: Object_entries_def)

lemma sum_Object_entries: "sum_list (map f (Object_entries ob)) = sum_list (map f ob)"
  for f :: "_ \<Rightarrow> nat"
proof -
  have "mset (map f (Object_entries ob)) = mset (map f ob)"
    by (simp add: mset_Object_entries)
  then show ?thesis
    by (metis sum_mset_sum_list)
qed

lemma set_Object_entries: "set (Object_entries ob) = set ob"
  by (metis mset_Object_entries set_mset_mset)

lemma distinct_Object_entries: "distinct (map fst (Object_entries ob)) = distinct (map fst ob)"
proof -
  have "mset (map fst (Object_entries ob)) = mset (map fst ob)"
    by (simp add: mset_Object_entries)
  then show ?thesis
    by (metis distinct_count_atmost_1 set_mset_mset)
qed

lemma sum_take_drop:
  fixes zs :: "nat list"
  shows "sum_list zs = sum_list (take n zs) + sum_list (drop n zs)"
proof -
  have "sum_list (take n zs @ drop n zs) = sum_list (take n zs) + sum_list (drop n zs)"
    by (rule sum_list_append)
  then show ?thesis
    by (simp only: append_take_drop_id)
qed

lemma sum_sort_key:
  fixes v :: "'a \<Rightarrow> nat"
  shows "sum_list (map v (sort_key f xs)) = sum_list (map v xs)"
proof -
  have "mset (map v (sort_key f xs)) = mset (map v xs)"
    by simp
  then have "sum_mset (mset (map v (sort_key f xs))) = sum_mset (mset (map v xs))"
    by (rule arg_cong)
  then show ?thesis
    by (simp only: sum_mset_sum_list)
qed

lemma sum_pos_nonempty:
  fixes zs :: "nat list"
  assumes "zs \<noteq> []" and "\<forall>z\<in>set zs. 1 \<le> z"
  shows "1 \<le> sum_list zs"
  using assms by (cases zs) auto


lemma obj_get_counted: "obj_get (counted acc) k = map_option Count (obj_get acc k)"
  by (induction acc) (auto simp: counted_def obj_get_def)

lemma obj_set_counted: "obj_set (counted acc) k (Count n) = counted (obj_set acc k n)"
  by (induction acc) (auto simp: counted_def)

lemma tally_counted:
  assumes "g row \<notin> set inheritedNames"
  shows "tally g (counted acc) row = counted (plainTally g acc row)"
proof -
  have k: "g row \<noteq> ''__proto__''" "g row \<notin> set inheritedMethods"
    using assms by (simp_all add: inheritedNames_def)
  show ?thesis
  proof (cases "obj_get acc (g row)")
    case None
    then show ?thesis
      using k by (simp add: tally_def plainTally_def Let_def obj_get_counted obj_set_counted)
  next
    case (Some n)
    then show ?thesis
      using k by (simp add: tally_def plainTally_def Let_def obj_get_counted obj_set_counted)
  qed
qed

lemma foldl_tally_counted:
  assumes "list_all (\<lambda>row. g row \<notin> set inheritedNames) data"
  shows "foldl (tally g) (counted acc) data = counted (foldl (plainTally g) acc data)"
  using assms by (induction data arbitrary: acc) (simp_all add: tally_counted)

lemma counted_Nil: "counted [] = []"
  by (simp add: counted_def)

lemma keys_counted: "map fst (counted acc) = map fst acc"
  by (simp add: counted_def comp_def)

lemma Object_keys_parts:
  "filter isArrayIndex (Object_keys ob)
     = map fst (sort_key (\<lambda>p. decimal (fst p)) (filter (\<lambda>p. isArrayIndex (fst p)) ob))"
  "filter (\<lambda>k. \<not> isArrayIndex k) (Object_keys ob)
     = map fst (filter (\<lambda>p. \<not> isArrayIndex (fst p)) ob)"
proof -
  let ?A = "sort_key (\<lambda>p. decimal (fst p)) (filter (\<lambda>p. isArrayIndex (fst p)) ob)"
  let ?B = "filter (\<lambda>p. \<not> isArrayIndex (fst p)) ob"
  have keys: "Object_keys ob = map fst ?A @ map fst ?B"
    by (simp only: Object_keys_def Object_entries_def map_append)
  have fm: "\<And>P xs. filter P (map fst xs) = map fst (filter (\<lambda>p. P (fst p)) xs)"
    by (simp add: filter_map comp_def)
  have a1: "filter (\<lambda>p. isArrayIndex (fst p)) ?A = ?A"
    by (rule filter_True) simp
  have a2: "filter (\<lambda>p. \<not> isArrayIndex (fst p)) ?A = []"
    by (rule filter_False) simp
  have b1: "filter (\<lambda>p. isArrayIndex (fst p)) ?B = []"
    by (rule filter_False) simp
  have b2: "filter (\<lambda>p. \<not> isArrayIndex (fst p)) ?B = ?B"
    by (rule filter_True) simp
  show "filter isArrayIndex (Object_keys ob) = map fst ?A"
    by (simp only: keys filter_append fm a1 b1 list.map append_Nil2)
  show "filter (\<lambda>k. \<not> isArrayIndex k) (Object_keys ob) = map fst ?B"
    by (simp only: keys filter_append fm a2 b2 list.map append_Nil)
qed

lemma Object_keys_split:
  "Object_keys ob = filter isArrayIndex (Object_keys ob) @ filter (\<lambda>k. \<not> isArrayIndex k) (Object_keys ob)"
  by (simp only: Object_keys_parts) (simp only: Object_keys_def Object_entries_def map_append)

lemma Object_keys_index_sorted: "sorted (map decimal (filter isArrayIndex (Object_keys ob)))"
proof -
  have "sorted (map (\<lambda>p. decimal (fst p))
      (sort_key (\<lambda>p. decimal (fst p)) (filter (\<lambda>p. isArrayIndex (fst p)) ob)))"
    by (rule sorted_sort_key)
  then show ?thesis
    by (simp only: Object_keys_parts map_map comp_def)
qed

lemma Object_keys_rest:
  "filter (\<lambda>k. \<not> isArrayIndex k) (Object_keys ob) = filter (\<lambda>k. \<not> isArrayIndex k) (map fst ob)"
  by (simp only: Object_keys_parts) (simp add: filter_map comp_def)

lemma length_Object_entries: "length (Object_entries ob) = length ob"
  by (metis mset_Object_entries size_mset)

lemma length_filter_count: "length (filter (\<lambda>row. g row = v) data) = count_list (map g data) v"
  by (induction data) auto

lemma insort_key_map: "insort_key f (h x) (map h xs) = map h (insort_key (\<lambda>y. f (h y)) x xs)"
  by (induction xs) simp_all

lemma sort_key_map: "sort_key f (map h xs) = map h (sort_key (\<lambda>y. f (h y)) xs)"
  by (induction xs) (simp_all add: insort_key_map)

lemma Object_entries_counted: "Object_entries (counted ob) = counted (Object_entries ob)"
proof -
  let ?h = "\<lambda>p :: string \<times> nat. (fst p, Count (snd p))"
  have f1: "filter (\<lambda>p. isArrayIndex (fst p)) (map ?h ob) = map ?h (filter (\<lambda>p. isArrayIndex (fst p)) ob)"
    by (simp add: filter_map comp_def)
  have f2: "filter (\<lambda>p. \<not> isArrayIndex (fst p)) (map ?h ob)
      = map ?h (filter (\<lambda>p. \<not> isArrayIndex (fst p)) ob)"
    by (simp add: filter_map comp_def)
  have s: "sort_key (\<lambda>p. decimal (fst p)) (map ?h (filter (\<lambda>p. isArrayIndex (fst p)) ob))
      = map ?h (sort_key (\<lambda>p. decimal (fst p)) (filter (\<lambda>p. isArrayIndex (fst p)) ob))"
    by (simp add: sort_key_map)
  show ?thesis
    unfolding Object_entries_def counted_def by (simp only: f1 f2 s map_append)
qed

text \<open>The buckets of a dimension whose resolved values are not inherited names.\<close>

lemma buckets_counted:
  assumes "list_all (\<lambda>row. g row \<notin> set inheritedNames) data"
  shows "map toChartData (Object_entries (foldl (tally g) [] data))
     = map (\<lambda>p. \<lparr>bucket_name = fst p, bucket_value = Count (snd p)\<rparr>)
         (Object_entries (foldl (plainTally g) [] data))"
proof -
  have "foldl (tally g) (counted []) data = counted (foldl (plainTally g) [] data)"
    using assms by (rule foldl_tally_counted)
  then have "foldl (tally g) [] data = counted (foldl (plainTally g) [] data)"
    by (simp only: counted_Nil)
  then show ?thesis
    by (simp add: Object_entries_counted) (simp add: counted_def toChartData_def)
qed

lemma plain_names: "map fst (Object_entries (foldl (plainTally g) [] data)) = Object_keys (foldl (plainTally g) [] data)"
  by (simp only: Object_keys_def)

lemma plain_name_set: "set (Object_keys (foldl (plainTally g) [] data)) = g ` set data"
proof -
  have "set (Object_keys (foldl (plainTally g) [] data)) = fst ` set (Object_entries (foldl (plainTally g) [] data))"
    by (simp only: Object_keys_def set_map)
  also have "\<dots> = fst ` set (foldl (plainTally g) [] data)"
    by (simp only: set_Object_entries)
  also have "\<dots> = g ` set data"
    by (simp add: set_keys_foldl_plainTally)
  finally show ?thesis .
qed

lemma plain_distinct: "distinct (Object_keys (foldl (plainTally g) [] data))"
  unfolding Object_keys_def distinct_Object_entries
  by (rule distinct_keys_foldl_plainTally) simp

lemma plain_length: "length (Object_entries (foldl (plainTally g) [] data)) = card (g ` set data)"
proof -
  have "card (g ` set data) = card (set (Object_keys (foldl (plainTally g) [] data)))"
    by (simp only: plain_name_set)
  also have "\<dots> = length (Object_keys (foldl (plainTally g) [] data))"
    by (rule distinct_card) (rule plain_distinct)
  finally show ?thesis
    by (simp add: Object_keys_def)
qed

lemma plain_count:
  assumes "p \<in> set (Object_entries (foldl (plainTally g) [] data))"
  shows "snd p = count_list (map g data) (fst p) \<and> 1 \<le> snd p"
proof -
  have "(fst p, snd p) \<in> set (foldl (plainTally g) [] data)"
    using assms by (simp add: set_Object_entries)
  then show ?thesis
    using bucket_is_count [of "fst p" "snd p" g data] by (simp add: length_filter_count)
qed

lemma plain_sum: "sum_list (map snd (Object_entries (foldl (plainTally g) [] data))) = length data"
  by (simp only: sum_Object_entries sum_foldl_plainTally) simp

lemma plain_order:
  "filter (\<lambda>k. \<not> isArrayIndex k) (Object_keys (foldl (plainTally g) [] data))
     = filter (\<lambda>k. \<not> isArrayIndex k) (rev (remdups (rev (map g data))))"
  by (simp only: Object_keys_rest keys_foldl_plainTally) simp

lemma top_ten_shape:
  fixes E :: "(string \<times> nat) list"
  defines "T \<equiv> take 10 (sort_key (\<lambda>p. - int (snd p)) E)"
  shows "length T = min 10 (length E)"
    and "sorted_wrt (\<lambda>a b. b \<le> a) (map snd T)"
    and "set T \<subseteq> set E"
    and "list_all (\<lambda>x. list_all (\<lambda>y. y \<in> set T \<or> snd y \<le> snd x) E) T"
proof -
  let ?S = "sort_key (\<lambda>p. - int (snd p)) E"
  show "length T = min 10 (length E)"
    by (simp add: T_def min.commute)
  have "sorted (map (\<lambda>p. - int (snd p)) ?S)"
    by (rule sorted_sort_key)
  then have "sorted_wrt (\<lambda>a b. - int (snd a) \<le> - int (snd b)) ?S"
    by (simp only: sorted_map)
  then have S: "sorted_wrt (\<lambda>a b. snd b \<le> snd a) ?S"
    by simp
  then have "sorted_wrt (\<lambda>a b. snd b \<le> snd a) T"
    unfolding T_def by (rule sorted_wrt_take)
  then show "sorted_wrt (\<lambda>a b. b \<le> a) (map snd T)"
    by (simp only: sorted_wrt_map)
  have "set T \<subseteq> set ?S"
    unfolding T_def by (rule set_take_subset)
  then show "set T \<subseteq> set E"
    by simp
  have "sorted_wrt (\<lambda>a b. snd b \<le> snd a) (take 10 ?S @ drop 10 ?S)"
    using S by (simp only: append_take_drop_id)
  then have cross: "\<forall>x\<in>set (take 10 ?S). \<forall>y\<in>set (drop 10 ?S). snd y \<le> snd x"
    by (simp only: sorted_wrt_append) blast
  have "set E = set (take 10 ?S @ drop 10 ?S)"
    by (simp only: append_take_drop_id set_sort)
  then have "set E = set T \<union> set (drop 10 ?S)"
    by (simp only: set_append T_def)
  then have "\<forall>x\<in>set T. \<forall>y\<in>set E. y \<in> set T \<or> snd y \<le> snd x"
    using cross unfolding T_def by blast
  then show "list_all (\<lambda>x. list_all (\<lambda>y. y \<in> set T \<or> snd y \<le> snd x) E) T"
    by (simp only: list_all_iff)
qed

lemma top_ten_sum:
  fixes E :: "(string \<times> nat) list"
  assumes "\<forall>p\<in>set E. 1 \<le> snd p"
  shows "sum_list (map snd (take 10 (sort_key f E))) \<le> sum_list (map snd E)"
    and "sum_list (map snd (take 10 (sort_key f E))) = sum_list (map snd E) \<longleftrightarrow> length E \<le> 10"
proof -
  let ?zs = "map snd (sort_key f E)"
  have total: "sum_list ?zs = sum_list (map snd E)"
    by (rule sum_sort_key)
  have split: "sum_list ?zs = sum_list (take 10 ?zs) + sum_list (drop 10 ?zs)"
    by (rule sum_take_drop)
  have tk: "map snd (take 10 (sort_key f E)) = take 10 ?zs"
    by (rule take_map [symmetric])
  show "sum_list (map snd (take 10 (sort_key f E))) \<le> sum_list (map snd E)"
    unfolding tk using total split by linarith
  have pos: "\<forall>z\<in>set (drop 10 ?zs). 1 \<le> z"
  proof
    fix z
    assume "z \<in> set (drop 10 ?zs)"
    then have "z \<in> set ?zs"
      by (rule in_set_dropD)
    then show "1 \<le> z"
      using assms by auto
  qed
  show "sum_list (map snd (take 10 (sort_key f E))) = sum_list (map snd E) \<longleftrightarrow> length E \<le> 10"
  proof (cases "length E \<le> 10")
    case True
    then have "drop 10 ?zs = []"
      by simp
    then have "sum_list (drop 10 ?zs) = 0"
      by simp
    then show ?thesis
      unfolding tk using total split True by linarith
  next
    case False
    then have "drop 10 ?zs \<noteq> []"
      by simp
    then have "1 \<le> sum_list (drop 10 ?zs)"
      using pos by (rule sum_pos_nonempty)
    then show ?thesis
      unfolding tk using total split False by linarith
  qed
qed

lemma stateData_counted:
  assumes "list_all (\<lambda>row. getState row \<notin> set inheritedNames) data"
  shows "stateData data
     = Some (map (\<lambda>p. \<lparr>bucket_name = fst p, bucket_value = Count (snd p)\<rparr>)
         (take 10 (sort_key (\<lambda>p. - int (snd p))
           (Object_entries (foldl (plainTally getState) [] data)))))"
proof -
  let ?mk = "\<lambda>p :: string \<times> nat. \<lparr>bucket_name = fst p, bucket_value = Count (snd p)\<rparr>"
  let ?E = "Object_entries (foldl (plainTally getState) [] data)"
  have b: "map toChartData (Object_entries (stateCounts data)) = map ?mk ?E"
    unfolding stateCounts_def using assms by (rule buckets_counted)
  have t: "Text \<notin> set (map bucket_value (map ?mk ?E))"
    by auto
  have "sort_key (\<lambda>b. case bucket_value b of Count n \<Rightarrow> - int n | Text \<Rightarrow> 0) (map ?mk ?E)
      = map ?mk (sort_key (\<lambda>p. - int (snd p)) ?E)"
    by (simp add: sort_key_map)
  then show ?thesis
    using t unfolding stateData_def b Let_def by (simp only: if_True take_map not_False_eq_True)
qed

lemma dimension_sum:
  assumes "list_all (\<lambda>row. g row \<notin> set inheritedNames) data"
  shows "\<exists>ns. map bucket_value (map toChartData (Object_entries (foldl (tally g) [] data))) = map Count ns
      \<and> sum_list ns = length data"
proof -
  let ?E = "Object_entries (foldl (plainTally g) [] data)"
  have "map bucket_value (map toChartData (Object_entries (foldl (tally g) [] data))) = map Count (map snd ?E)"
    unfolding buckets_counted [OF assms] by (simp add: comp_def)
  moreover have "sum_list (map snd ?E) = length data"
    by (rule plain_sum)
  ultimately show ?thesis
    by blast
qed

lemma dimension_buckets:
  assumes "list_all (\<lambda>row. g row \<notin> set inheritedNames) data"
  defines "B \<equiv> map toChartData (Object_entries (foldl (tally g) [] data))"
  shows "bucket_name ` set B = g ` set data"
    and "distinct (map bucket_name B)"
    and "length B = card (g ` set data)"
    and "list_all (\<lambda>b. bucket_value b = Count (count_list (map g data) (bucket_name b))) B"
    and "map bucket_name B
      = filter isArrayIndex (map bucket_name B) @ filter (\<lambda>k. \<not> isArrayIndex k) (map bucket_name B)"
    and "sorted (map decimal (filter isArrayIndex (map bucket_name B)))"
    and "filter (\<lambda>k. \<not> isArrayIndex k) (map bucket_name B)
      = filter (\<lambda>k. \<not> isArrayIndex k) (rev (remdups (rev (map g data))))"
proof -
  let ?c = "foldl (plainTally g) [] data"
  let ?E = "Object_entries ?c"
  let ?mk = "\<lambda>p :: string \<times> nat. \<lparr>bucket_name = fst p, bucket_value = Count (snd p)\<rparr>"
  have B: "B = map ?mk ?E"
    unfolding B_def using assms(1) by (rule buckets_counted)
  have names: "map bucket_name B = Object_keys ?c"
    unfolding B Object_keys_def by (simp add: comp_def)
  have "set (map bucket_name B) = g ` set data"
    unfolding names by (rule plain_name_set)
  then show "bucket_name ` set B = g ` set data"
    by (simp only: set_map)
  show "distinct (map bucket_name B)"
    unfolding names by (rule plain_distinct)
  show "length B = card (g ` set data)"
    unfolding B using plain_length [of g data] by simp
  show "list_all (\<lambda>b. bucket_value b = Count (count_list (map g data) (bucket_name b))) B"
    unfolding list_all_iff B
  proof
    fix b
    assume "b \<in> set (map ?mk ?E)"
    then obtain p where p: "p \<in> set ?E" and b: "b = ?mk p"
      by (auto simp only: set_map)
    have "snd p = count_list (map g data) (fst p)"
      using plain_count [of p g data] p by simp
    then show "bucket_value b = Count (count_list (map g data) (bucket_name b))"
      by (simp add: b)
  qed
  show "map bucket_name B
      = filter isArrayIndex (map bucket_name B) @ filter (\<lambda>k. \<not> isArrayIndex k) (map bucket_name B)"
    unfolding names by (rule Object_keys_split)
  show "sorted (map decimal (filter isArrayIndex (map bucket_name B)))"
    unfolding names by (rule Object_keys_index_sorted)
  show "filter (\<lambda>k. \<not> isArrayIndex k) (map bucket_name B)
      = filter (\<lambda>k. \<not> isArrayIndex k) (rev (remdups (rev (map g data))))"
    unfolding names by (rule plain_order)
qed

lemma state_top_ten:
  assumes H: "list_all (\<lambda>row. getState row \<notin> set inheritedNames) data"
  shows "\<exists>bs ns. stateData data = Some bs
      \<and> map bucket_value bs = map Count ns
      \<and> length bs = min 10 (card (getState ` set data))
      \<and> sorted_wrt (\<lambda>a b. b \<le> a) ns
      \<and> set bs \<subseteq> set (map toChartData (stateCounts data))
      \<and> list_all (\<lambda>b. bucket_value b = Count (count_list (map getState data) (bucket_name b))) bs
      \<and> list_all (\<lambda>b. list_all (\<lambda>c. c \<in> set bs \<or> (\<exists>m n. bucket_value c = Count m
            \<and> bucket_value b = Count n \<and> m \<le> n)) (map toChartData (stateCounts data))) bs"
    and "\<exists>bs ns. stateData data = Some bs \<and> map bucket_value bs = map Count ns
      \<and> sum_list ns \<le> length data
      \<and> (sum_list ns = length data \<longleftrightarrow> card (getState ` set data) \<le> 10)"
proof -
  let ?c = "foldl (plainTally getState) [] data"
  let ?E = "Object_entries ?c"
  let ?T = "take 10 (sort_key (\<lambda>p. - int (snd p)) ?E)"
  let ?mk = "\<lambda>p :: string \<times> nat. \<lparr>bucket_name = fst p, bucket_value = Count (snd p)\<rparr>"
  have sd: "stateData data = Some (map ?mk ?T)"
    using H by (rule stateData_counted)
  have all: "map toChartData (stateCounts data) = map ?mk ?c"
  proof -
    have "foldl (tally getState) (counted []) data = counted ?c"
      using H by (rule foldl_tally_counted)
    then show ?thesis
      by (simp add: stateCounts_def counted_Nil) (simp add: counted_def toChartData_def)
  qed
  have pos: "\<forall>p\<in>set ?E. 1 \<le> snd p"
  proof
    fix p
    assume "p \<in> set ?E"
    then show "1 \<le> snd p"
      using plain_count [of p getState data] by simp
  qed
  have sub: "set ?T \<subseteq> set ?E"
    by (rule top_ten_shape)
  have 1: "map bucket_value (map ?mk ?T) = map Count (map snd ?T)"
    by (simp add: comp_def)
  have 2: "length (map ?mk ?T) = min 10 (card (getState ` set data))"
    using top_ten_shape(1) [of ?E] plain_length [of getState data] by simp
  have 3: "sorted_wrt (\<lambda>a b. b \<le> a) (map snd ?T)"
    by (rule top_ten_shape)
  have sub': "set ?T \<subseteq> set ?c"
    using sub by (simp only: set_Object_entries)
  have 4: "set (map ?mk ?T) \<subseteq> set (map toChartData (stateCounts data))"
    unfolding all set_map using sub' by (rule image_mono)
  have 5: "list_all (\<lambda>b. bucket_value b = Count (count_list (map getState data) (bucket_name b)))
      (map ?mk ?T)"
    unfolding list_all_iff
  proof
    fix b
    assume "b \<in> set (map ?mk ?T)"
    then obtain p where p: "p \<in> set ?T" and b: "b = ?mk p"
      by (auto simp only: set_map)
    have "p \<in> set ?E"
      using p sub by (rule subsetD [rotated])
    then have "snd p = count_list (map getState data) (fst p)"
      using plain_count [of p getState data] by simp
    then show "bucket_value b = Count (count_list (map getState data) (bucket_name b))"
      by (simp add: b)
  qed
  have cross: "\<forall>x\<in>set ?T. \<forall>y\<in>set ?E. y \<in> set ?T \<or> snd y \<le> snd x"
    using top_ten_shape(4) [of ?E] by (simp only: list_all_iff)
  have 6: "list_all (\<lambda>b. list_all (\<lambda>c. c \<in> set (map ?mk ?T) \<or> (\<exists>m n. bucket_value c = Count m
            \<and> bucket_value b = Count n \<and> m \<le> n)) (map toChartData (stateCounts data))) (map ?mk ?T)"
    unfolding list_all_iff all
  proof (intro ballI)
    fix b c
    assume "b \<in> set (map ?mk ?T)" and "c \<in> set (map ?mk ?c)"
    then obtain x y where x: "x \<in> set ?T" "b = ?mk x" and y: "y \<in> set ?c" "c = ?mk y"
      by (auto simp only: set_map)
    have "y \<in> set ?E"
      using y(1) by (simp only: set_Object_entries)
    then have "y \<in> set ?T \<or> snd y \<le> snd x"
      using cross x(1) by blast
    then show "c \<in> set (map ?mk ?T) \<or> (\<exists>m n. bucket_value c = Count m
            \<and> bucket_value b = Count n \<and> m \<le> n)"
    proof
      assume "y \<in> set ?T"
      then have "c \<in> set (map ?mk ?T)"
        unfolding y(2) set_map by (rule imageI)
      then show ?thesis ..
    next
      assume "snd y \<le> snd x"
      then have "bucket_value c = Count (snd y) \<and> bucket_value b = Count (snd x) \<and> snd y \<le> snd x"
        by (simp add: x(2) y(2))
      then show ?thesis
        by blast
    qed
  qed
  have 7: "sum_list (map snd ?T) \<le> length data"
    using top_ten_sum(1) [OF pos] plain_sum [of getState data] by simp
  have 8: "sum_list (map snd ?T) = length data \<longleftrightarrow> card (getState ` set data) \<le> 10"
    using top_ten_sum(2) [OF pos] plain_sum [of getState data] plain_length [of getState data] by simp
  show "\<exists>bs ns. stateData data = Some bs
      \<and> map bucket_value bs = map Count ns
      \<and> length bs = min 10 (card (getState ` set data))
      \<and> sorted_wrt (\<lambda>a b. b \<le> a) ns
      \<and> set bs \<subseteq> set (map toChartData (stateCounts data))
      \<and> list_all (\<lambda>b. bucket_value b = Count (count_list (map getState data) (bucket_name b))) bs
      \<and> list_all (\<lambda>b. list_all (\<lambda>c. c \<in> set bs \<or> (\<exists>m n. bucket_value c = Count m
            \<and> bucket_value b = Count n \<and> m \<le> n)) (map toChartData (stateCounts data))) bs"
    by (intro exI [of _ "map ?mk ?T"] exI [of _ "map snd ?T"] conjI sd 1 2 3 4 5 6)
  show "\<exists>bs ns. stateData data = Some bs \<and> map bucket_value bs = map Count ns
      \<and> sum_list ns \<le> length data
      \<and> (sum_list ns = length data \<longleftrightarrow> card (getState ` set data) \<le> 10)"
    by (intro exI [of _ "map ?mk ?T"] exI [of _ "map snd ?T"] conjI sd 1 7 8)
qed

text \<open>
  Claim C6, as the code has it. For a dimension none of whose resolved values is a name
  inherited from \<open>Object.prototype\<close>, the bucket values are counts. For status,
  priority and type they add up to the number of records, and so do the counts of the
  state dimension before its truncation. The state buckets as rendered are the ten
  largest: their counts add up to at most the number of records, and to exactly that
  number if and only if the records have at most ten distinct states.
\<close>

theorem bucket_counts_add_up:
  "(list_all (\<lambda>row. getStatus row \<notin> set inheritedNames) data
     \<longrightarrow> (\<exists>ns. map bucket_value (statusData data) = map Count ns \<and> sum_list ns = length data))
   \<and> (list_all (\<lambda>row. getPriority row \<notin> set inheritedNames) data
     \<longrightarrow> (\<exists>ns. map bucket_value (priorityData data) = map Count ns \<and> sum_list ns = length data))
   \<and> (list_all (\<lambda>row. getType row \<notin> set inheritedNames) data
     \<longrightarrow> (\<exists>ns. map bucket_value (typeData data) = map Count ns \<and> sum_list ns = length data))
   \<and> (list_all (\<lambda>row. getState row \<notin> set inheritedNames) data
     \<longrightarrow> (\<exists>ns. map snd (stateCounts data) = map Count ns \<and> sum_list ns = length data)
       \<and> (\<exists>bs ns. stateData data = Some bs \<and> map bucket_value bs = map Count ns
            \<and> sum_list ns \<le> length data
            \<and> (sum_list ns = length data \<longleftrightarrow> card (getState ` set data) \<le> 10)))"
proof (intro conjI impI)
  assume "list_all (\<lambda>row. getStatus row \<notin> set inheritedNames) data"
  then show "\<exists>ns. map bucket_value (statusData data) = map Count ns \<and> sum_list ns = length data"
    unfolding statusData_def statusCounts_def by (rule dimension_sum)
next
  assume "list_all (\<lambda>row. getPriority row \<notin> set inheritedNames) data"
  then show "\<exists>ns. map bucket_value (priorityData data) = map Count ns \<and> sum_list ns = length data"
    unfolding priorityData_def priorityCounts_def by (rule dimension_sum)
next
  assume "list_all (\<lambda>row. getType row \<notin> set inheritedNames) data"
  then show "\<exists>ns. map bucket_value (typeData data) = map Count ns \<and> sum_list ns = length data"
    unfolding typeData_def typeCounts_def by (rule dimension_sum)
next
  assume H: "list_all (\<lambda>row. getState row \<notin> set inheritedNames) data"
  have "foldl (tally getState) (counted []) data = counted (foldl (plainTally getState) [] data)"
    using H by (rule foldl_tally_counted)
  then have "map snd (stateCounts data) = map Count (map snd (foldl (plainTally getState) [] data))"
    by (simp add: stateCounts_def counted_Nil) (simp add: counted_def comp_def)
  moreover have "sum_list (map snd (foldl (plainTally getState) [] data)) = length data"
    by (simp add: sum_foldl_plainTally)
  ultimately show "\<exists>ns. map snd (stateCounts data) = map Count ns \<and> sum_list ns = length data"
    by blast
  show "\<exists>bs ns. stateData data = Some bs \<and> map bucket_value bs = map Count ns
            \<and> sum_list ns \<le> length data
            \<and> (sum_list ns = length data \<longleftrightarrow> card (getState ` set data) \<le> 10)"
    using H by (rule state_top_ten)
qed

theorem bucket_counts_add_up_witness:
  "(\<exists>ns. map bucket_value (statusData exampleData) = map Count ns \<and> sum_list ns = length exampleData)
   \<and> (\<exists>ns. map bucket_value (priorityData exampleData) = map Count ns \<and> sum_list ns = length exampleData)
   \<and> (\<exists>ns. map bucket_value (typeData exampleData) = map Count ns \<and> sum_list ns = length exampleData)
   \<and> (\<exists>ns. map snd (stateCounts exampleData) = map Count ns \<and> sum_list ns = length exampleData)
       \<and> (\<exists>bs ns. stateData exampleData = Some bs \<and> map bucket_value bs = map Count ns
            \<and> sum_list ns \<le> length exampleData
            \<and> (sum_list ns = length exampleData \<longleftrightarrow> card (getState ` set exampleData) \<le> 10))"
proof -
  have h1: "list_all (\<lambda>row. getStatus row \<notin> set inheritedNames) exampleData"
    by code_simp
  have h2: "list_all (\<lambda>row. getPriority row \<notin> set inheritedNames) exampleData"
    by code_simp
  have h3: "list_all (\<lambda>row. getType row \<notin> set inheritedNames) exampleData"
    by code_simp
  have h4: "list_all (\<lambda>row. getState row \<notin> set inheritedNames) exampleData"
    by code_simp
  note t = bucket_counts_add_up [of exampleData]
  note c1 = t [THEN conjunct1, THEN mp, OF h1]
  note c2 = t [THEN conjunct2, THEN conjunct1, THEN mp, OF h2]
  note c3 = t [THEN conjunct2, THEN conjunct2, THEN conjunct1, THEN mp, OF h3]
  note c4 = t [THEN conjunct2, THEN conjunct2, THEN conjunct2, THEN mp, OF h4]
  show ?thesis
    by (rule conjI, rule c1, rule conjI, rule c2, rule conjI, rule c3, rule c4)
qed

text \<open>
  The claim as stated fails for the state dimension as rendered: eleven records with
  eleven distinct states leave ten buckets of one record each.
\<close>

theorem stateData_drops_records:
  "stateData [[(''State'', ''a'')], [(''State'', ''b'')], [(''State'', ''c'')], [(''State'', ''d'')], [(''State'', ''e'')], [(''State'', ''f'')], [(''State'', ''g'')], [(''State'', ''h'')], [(''State'', ''i'')], [(''State'', ''j'')], [(''State'', ''k'')]]
     = Some [\<lparr>bucket_name = ''a'', bucket_value = Count 1\<rparr>,
        \<lparr>bucket_name = ''b'', bucket_value = Count 1\<rparr>,
        \<lparr>bucket_name = ''c'', bucket_value = Count 1\<rparr>,
        \<lparr>bucket_name = ''d'', bucket_value = Count 1\<rparr>,
        \<lparr>bucket_name = ''e'', bucket_value = Count 1\<rparr>,
        \<lparr>bucket_name = ''f'', bucket_value = Count 1\<rparr>,
        \<lparr>bucket_name = ''g'', bucket_value = Count 1\<rparr>,
        \<lparr>bucket_name = ''h'', bucket_value = Count 1\<rparr>,
        \<lparr>bucket_name = ''i'', bucket_value = Count 1\<rparr>,
        \<lparr>bucket_name = ''j'', bucket_value = Count 1\<rparr>]
   \<and> length [[(''State'', ''a'')], [(''State'', ''b'')], [(''State'', ''c'')], [(''State'', ''d'')], [(''State'', ''e'')], [(''State'', ''f'')], [(''State'', ''g'')], [(''State'', ''h'')], [(''State'', ''i'')], [(''State'', ''j'')], [(''State'', ''k'')]] = 11"
  by code_simp

text \<open>
  The hypothesis on the names is needed. A value that is an inherited name is not
  counted: \<open>__proto__\<close> gets no bucket at all and \<open>constructor\<close> gets a string for a
  count.
\<close>

lemma tally_inherited_names:
  "statusData [[(''Status'', ''Open'')], [(''Status'', ''__proto__'')], [(''Status'', ''Open'')],
      [(''Status'', ''__proto__'')]]
     = [\<lparr>bucket_name = ''Open'', bucket_value = Count 2\<rparr>]
   \<and> statusData [[(''Status'', ''Open'')], [(''Status'', ''constructor'')], [(''Status'', ''Open'')],
      [(''Status'', ''constructor'')]]
     = [\<lparr>bucket_name = ''Open'', bucket_value = Count 2\<rparr>,
        \<lparr>bucket_name = ''constructor'', bucket_value = Text\<rparr>]"
  by code_simp

text \<open>
  Whatever the values are, the state dimension as rendered has at most ten buckets.
\<close>

lemma stateData_at_most_ten: "stateData data = Some bs \<Longrightarrow> length bs \<le> 10"
  unfolding stateData_def Let_def by (auto split: if_splits)

text \<open>
  Claim C7, as the code has it, for dimensions none of whose resolved values is a name
  inherited from \<open>Object.prototype\<close>. The state buckets are the ten largest (all of
  them when there are fewer), sorted by falling count: each is a bucket of the full
  count, holds the number of records with its state, and no bucket left out is larger
  than one kept. The buckets of status, priority and type are not truncated and not
  sorted by count: their names are exactly the distinct resolved values, each once, each
  with the number of its records. Their order is that of \<open>Object.entries\<close>: the names
  that are array indices come first, in ascending numeric order, and the other names
  follow in the order in which the values first occur in the data.
\<close>

theorem state_top_ten_others_full:
  "(list_all (\<lambda>row. getState row \<notin> set inheritedNames) data
     \<longrightarrow> (\<exists>bs ns. stateData data = Some bs
          \<and> map bucket_value bs = map Count ns
          \<and> length bs = min 10 (card (getState ` set data))
          \<and> sorted_wrt (\<lambda>a b. b \<le> a) ns
          \<and> set bs \<subseteq> set (map toChartData (stateCounts data))
          \<and> list_all (\<lambda>b. bucket_value b = Count (count_list (map getState data) (bucket_name b))) bs
          \<and> list_all (\<lambda>b. list_all (\<lambda>c. c \<in> set bs \<or> (\<exists>m n. bucket_value c = Count m
                \<and> bucket_value b = Count n \<and> m \<le> n)) (map toChartData (stateCounts data))) bs))
   \<and> (list_all (\<lambda>row. getStatus row \<notin> set inheritedNames) data
     \<longrightarrow> bucket_name ` set (statusData data) = getStatus ` set data
        \<and> distinct (map bucket_name (statusData data))
        \<and> length (statusData data) = card (getStatus ` set data)
        \<and> list_all (\<lambda>b. bucket_value b = Count (count_list (map getStatus data) (bucket_name b))) (statusData data)
        \<and> map bucket_name (statusData data)
            = filter isArrayIndex (map bucket_name (statusData data))
              @ filter (\<lambda>k. \<not> isArrayIndex k) (map bucket_name (statusData data))
        \<and> sorted (map decimal (filter isArrayIndex (map bucket_name (statusData data))))
        \<and> filter (\<lambda>k. \<not> isArrayIndex k) (map bucket_name (statusData data))
            = filter (\<lambda>k. \<not> isArrayIndex k) (rev (remdups (rev (map getStatus data)))))
   \<and> (list_all (\<lambda>row. getPriority row \<notin> set inheritedNames) data
     \<longrightarrow> bucket_name ` set (priorityData data) = getPriority ` set data
        \<and> distinct (map bucket_name (priorityData data))
        \<and> length (priorityData data) = card (getPriority ` set data)
        \<and> list_all (\<lambda>b. bucket_value b = Count (count_list (map getPriority data) (bucket_name b))) (priorityData data)
        \<and> map bucket_name (priorityData data)
            = filter isArrayIndex (map bucket_name (priorityData data))
              @ filter (\<lambda>k. \<not> isArrayIndex k) (map bucket_name (priorityData data))
        \<and> sorted (map decimal (filter isArrayIndex (map bucket_name (priorityData data))))
        \<and> filter (\<lambda>k. \<not> isArrayIndex k) (map bucket_name (priorityData data))
            = filter (\<lambda>k. \<not> isArrayIndex k) (rev (remdups (rev (map getPriority data)))))
   \<and> (list_all (\<lambda>row. getType row \<notin> set inheritedNames) data
     \<longrightarrow> bucket_name ` set (typeData data) = getType ` set data
        \<and> distinct (map bucket_name (typeData data))
        \<and> length (typeData data) = card (getType ` set data)
        \<and> list_all (\<lambda>b. bucket_value b = Count (count_list (map getType data) (bucket_name b))) (typeData data)
        \<and> map bucket_name (typeData data)
            = filter isArrayIndex (map bucket_name (typeData data))
              @ filter (\<lambda>k. \<not> isArrayIndex k) (map bucket_name (typeData data))
        \<and> sorted (map decimal (filter isArrayIndex (map bucket_name (typeData data))))
        \<and> filter (\<lambda>k. \<not> isArrayIndex k) (map bucket_name (typeData data))
            = filter (\<lambda>k. \<not> isArrayIndex k) (rev (remdups (rev (map getType data)))))"
proof (intro conjI)
  show "list_all (\<lambda>row. getState row \<notin> set inheritedNames) data
     \<longrightarrow> (\<exists>bs ns. stateData data = Some bs
          \<and> map bucket_value bs = map Count ns
          \<and> length bs = min 10 (card (getState ` set data))
          \<and> sorted_wrt (\<lambda>a b. b \<le> a) ns
          \<and> set bs \<subseteq> set (map toChartData (stateCounts data))
          \<and> list_all (\<lambda>b. bucket_value b = Count (count_list (map getState data) (bucket_name b))) bs
          \<and> list_all (\<lambda>b. list_all (\<lambda>c. c \<in> set bs \<or> (\<exists>m n. bucket_value c = Count m
                \<and> bucket_value b = Count n \<and> m \<le> n)) (map toChartData (stateCounts data))) bs)"
  proof (rule impI)
    assume "list_all (\<lambda>row. getState row \<notin> set inheritedNames) data"
    then show "\<exists>bs ns. stateData data = Some bs
          \<and> map bucket_value bs = map Count ns
          \<and> length bs = min 10 (card (getState ` set data))
          \<and> sorted_wrt (\<lambda>a b. b \<le> a) ns
          \<and> set bs \<subseteq> set (map toChartData (stateCounts data))
          \<and> list_all (\<lambda>b. bucket_value b = Count (count_list (map getState data) (bucket_name b))) bs
          \<and> list_all (\<lambda>b. list_all (\<lambda>c. c \<in> set bs \<or> (\<exists>m n. bucket_value c = Count m
                \<and> bucket_value b = Count n \<and> m \<le> n)) (map toChartData (stateCounts data))) bs"
      by (rule state_top_ten)
  qed
  show "list_all (\<lambda>row. getStatus row \<notin> set inheritedNames) data
     \<longrightarrow> bucket_name ` set (statusData data) = getStatus ` set data
        \<and> distinct (map bucket_name (statusData data))
        \<and> length (statusData data) = card (getStatus ` set data)
        \<and> list_all (\<lambda>b. bucket_value b = Count (count_list (map getStatus data) (bucket_name b))) (statusData data)
        \<and> map bucket_name (statusData data)
            = filter isArrayIndex (map bucket_name (statusData data))
              @ filter (\<lambda>k. \<not> isArrayIndex k) (map bucket_name (statusData data))
        \<and> sorted (map decimal (filter isArrayIndex (map bucket_name (statusData data))))
        \<and> filter (\<lambda>k. \<not> isArrayIndex k) (map bucket_name (statusData data))
            = filter (\<lambda>k. \<not> isArrayIndex k) (rev (remdups (rev (map getStatus data))))"
  proof (rule impI)
    assume H: "list_all (\<lambda>row. getStatus row \<notin> set inheritedNames) data"
    show "bucket_name ` set (statusData data) = getStatus ` set data
        \<and> distinct (map bucket_name (statusData data))
        \<and> length (statusData data) = card (getStatus ` set data)
        \<and> list_all (\<lambda>b. bucket_value b = Count (count_list (map getStatus data) (bucket_name b))) (statusData data)
        \<and> map bucket_name (statusData data)
            = filter isArrayIndex (map bucket_name (statusData data))
              @ filter (\<lambda>k. \<not> isArrayIndex k) (map bucket_name (statusData data))
        \<and> sorted (map decimal (filter isArrayIndex (map bucket_name (statusData data))))
        \<and> filter (\<lambda>k. \<not> isArrayIndex k) (map bucket_name (statusData data))
            = filter (\<lambda>k. \<not> isArrayIndex k) (rev (remdups (rev (map getStatus data))))"
      unfolding statusData_def statusCounts_def
      by (intro conjI dimension_buckets [OF H])
  qed
  show "list_all (\<lambda>row. getPriority row \<notin> set inheritedNames) data
     \<longrightarrow> bucket_name ` set (priorityData data) = getPriority ` set data
        \<and> distinct (map bucket_name (priorityData data))
        \<and> length (priorityData data) = card (getPriority ` set data)
        \<and> list_all (\<lambda>b. bucket_value b = Count (count_list (map getPriority data) (bucket_name b))) (priorityData data)
        \<and> map bucket_name (priorityData data)
            = filter isArrayIndex (map bucket_name (priorityData data))
              @ filter (\<lambda>k. \<not> isArrayIndex k) (map bucket_name (priorityData data))
        \<and> sorted (map decimal (filter isArrayIndex (map bucket_name (priorityData data))))
        \<and> filter (\<lambda>k. \<not> isArrayIndex k) (map bucket_name (priorityData data))
            = filter (\<lambda>k. \<not> isArrayIndex k) (rev (remdups (rev (map getPriority data))))"
  proof (rule impI)
    assume H: "list_all (\<lambda>row. getPriority row \<notin> set inheritedNames) data"
    show "bucket_name ` set (priorityData data) = getPriority ` set data
        \<and> distinct (map bucket_name (priorityData data))
        \<and> length (priorityData data) = card (getPriority ` set data)
        \<and> list_all (\<lambda>b. bucket_value b = Count (count_list (map getPriority data) (bucket_name b))) (priorityData data)
        \<and> map bucket_name (priorityData data)
            = filter isArrayIndex (map bucket_name (priorityData data))
              @ filter (\<lambda>k. \<not> isArrayIndex k) (map bucket_name (priorityData data))
        \<and> sorted (map decimal (filter isArrayIndex (map bucket_name (priorityData data))))
        \<and> filter (\<lambda>k. \<not> isArrayIndex k) (map bucket_name (priorityData data))
            = filter (\<lambda>k. \<not> isArrayIndex k) (rev (remdups (rev (map getPriority data))))"
      unfolding priorityData_def priorityCounts_def
      by (intro conjI dimension_buckets [OF H])
  qed
  show "list_all (\<lambda>row. getType row \<notin> set inheritedNames) data
     \<longrightarrow> bucket_name ` set (typeData data) = getType ` set data
        \<and> distinct (map bucket_name (typeData data))
        \<and> length (typeData data) = card (getType ` set data)
        \<and> list_all (\<lambda>b. bucket_value b = Count (count_list (map getType data) (bucket_name b))) (typeData data)
        \<and> map bucket_name (typeData data)
            = filter isArrayIndex (map bucket_name (typeData data))
              @ filter (\<lambda>k. \<not> isArrayIndex k) (map bucket_name (typeData data))
        \<and> sorted (map decimal (filter isArrayIndex (map bucket_name (typeData data))))
        \<and> filter (\<lambda>k. \<not> isArrayIndex k) (map bucket_name (typeData data))
            = filter (\<lambda>k. \<not> isArrayIndex k) (rev (remdups (rev (map getType data))))"
  proof (rule impI)
    assume H: "list_all (\<lambda>row. getType row \<notin> set inheritedNames) data"
    show "bucket_name ` set (typeData data) = getType ` set data
        \<and> distinct (map bucket_name (typeData data))
        \<and> length (typeData data) = card (getType ` set data)
        \<and> list_all (\<lambda>b. bucket_value b = Count (count_list (map getType data) (bucket_name b))) (typeData data)
        \<and> map bucket_name (typeData data)
            = filter isArrayIndex (map bucket_name (typeData data))
              @ filter (\<lambda>k. \<not> isArrayIndex k) (map bucket_name (typeData data))
        \<and> sorted (map decimal (filter isArrayIndex (map bucket_name (typeData data))))
        \<and> filter (\<lambda>k. \<not> isArrayIndex k) (map bucket_name (typeData data))
            = filter (\<lambda>k. \<not> isArrayIndex k) (rev (remdups (rev (map getType data))))"
      unfolding typeData_def typeCounts_def
      by (intro conjI dimension_buckets [OF H])
  qed
qed

theorem state_top_ten_others_full_witness:
  "(\<exists>bs ns. stateData exampleData = Some bs
          \<and> map bucket_value bs = map Count ns
          \<and> length bs = min 10 (card (getState ` set exampleData))
          \<and> sorted_wrt (\<lambda>a b. b \<le> a) ns
          \<and> set bs \<subseteq> set (map toChartData (stateCounts exampleData))
          \<and> list_all (\<lambda>b. bucket_value b = Count (count_list (map getState exampleData) (bucket_name b))) bs
          \<and> list_all (\<lambda>b. list_all (\<lambda>c. c \<in> set bs \<or> (\<exists>m n. bucket_value c = Count m
                \<and> bucket_value b = Count n \<and> m \<le> n)) (map toChartData (stateCounts exampleData))) bs)
   \<and> (bucket_name ` set (statusData exampleData) = getStatus ` set exampleData
        \<and> distinct (map bucket_name (statusData exampleData))
        \<and> length (statusData exampleData) = card (getStatus ` set exampleData)
        \<and> list_all (\<lambda>b. bucket_value b = Count (count_list (map getStatus exampleData) (bucket_name b))) (statusData exampleData)
        \<and> map bucket_name (statusData exampleData)
            = filter isArrayIndex (map bucket_name (statusData exampleData))
              @ filter (\<lambda>k. \<not> isArrayIndex k) (map bucket_name (statusData exampleData))
        \<and> sorted (map decimal (filter isArrayIndex (map bucket_name (statusData exampleData))))
        \<and> filter (\<lambda>k. \<not> isArrayIndex k) (map bucket_name (statusData exampleData))
            = filter (\<lambda>k. \<not> isArrayIndex k) (rev (remdups (rev (map getStatus exampleData)))))
   \<and> (bucket_name ` set (priorityData exampleData) = getPriority ` set exampleData
        \<and> distinct (map bucket_name (priorityData exampleData))
        \<and> length (priorityData exampleData) = card (getPriority ` set exampleData)
        \<and> list_all (\<lambda>b. bucket_value b = Count (count_list (map getPriority exampleData) (bucket_name b))) (priorityData exampleData)
        \<and> map bucket_name (priorityData exampleData)
            = filter isArrayIndex (map bucket_name (priorityData exampleData))
              @ filter (\<lambda>k. \<not> isArrayIndex k) (map bucket_name (priorityData exampleData))
        \<and> sorted (map decimal (filter isArrayIndex (map bucket_name (priorityData exampleData))))
        \<and> filter (\<lambda>k. \<not> isArrayIndex k) (map bucket_name (priorityData exampleData))
            = filter (\<lambda>k. \<not> isArrayIndex k) (rev (remdups (rev (map getPriority exampleData)))))
   \<and> (bucket_name ` set (typeData exampleData) = getType ` set exampleData
        \<and> distinct (map bucket_name (typeData exampleData))
        \<and> length (typeData exampleData) = card (getType ` set exampleData)
        \<and> list_all (\<lambda>b. bucket_value b = Count (count_list (map getType exampleData) (bucket_name b))) (typeData exampleData)
        \<and> map bucket_name (typeData exampleData)
            = filter isArrayIndex (map bucket_name (typeData exampleData))
              @ filter (\<lambda>k. \<not> isArrayIndex k) (map bucket_name (typeData exampleData))
        \<and> sorted (map decimal (filter isArrayIndex (map bucket_name (typeData exampleData))))
        \<and> filter (\<lambda>k. \<not> isArrayIndex k) (map bucket_name (typeData exampleData))
            = filter (\<lambda>k. \<not> isArrayIndex k) (rev (remdups (rev (map getType exampleData)))))"
proof -
  have h1: "list_all (\<lambda>row. getState row \<notin> set inheritedNames) exampleData"
    by code_simp
  have h2: "list_all (\<lambda>row. getStatus row \<notin> set inheritedNames) exampleData"
    by code_simp
  have h3: "list_all (\<lambda>row. getPriority row \<notin> set inheritedNames) exampleData"
    by code_simp
  have h4: "list_all (\<lambda>row. getType row \<notin> set inheritedNames) exampleData"
    by code_simp
  note t = state_top_ten_others_full [of exampleData]
  note c1 = t [THEN conjunct1, THEN mp, OF h1]
  note c2 = t [THEN conjunct2, THEN conjunct1, THEN mp, OF h2]
  note c3 = t [THEN conjunct2, THEN conjunct2, THEN conjunct1, THEN mp, OF h3]
  note c4 = t [THEN conjunct2, THEN conjunct2, THEN conjunct2, THEN mp, OF h4]
  show ?thesis
    by (rule conjI, rule c1, rule conjI, rule c2, rule conjI, rule c3, rule c4)
qed

text \<open>
  The claim as stated fails where it says that the other dimensions are not sorted:
  priorities that occur in the order 3, 1, 2 come out as 1, 2, 3.
\<close>

theorem priorityData_reorders_numbers:
  "map bucket_name (priorityData [[(''Priority'', ''3'')], [(''Priority'', ''1'')], [(''Priority'', ''2'')],
      [(''Priority'', ''1'')]]) = [''1'', ''2'', ''3'']
   \<and> map getPriority [[(''Priority'', ''3'')], [(''Priority'', ''1'')], [(''Priority'', ''2'')],
      [(''Priority'', ''1'')]] = [''3'', ''1'', ''2'', ''1'']"
  by code_simp

section \<open>Properties of the Filter Engine\<close>

lemma filter_empty_image: "filter (\<lambda>row. g row = v) data = [] \<longleftrightarrow> v \<notin> g ` set data"
  by (auto simp: filter_empty_conv)

text \<open>
  Claim C9. With a selector of kind status, priority, type or state the filtered result
  is exactly the records, in their order, whose resolved value for that kind equals the
  selector's value as a string. Its length is the number of records with that resolved
  value, and it is empty exactly when no record has it.
\<close>

theorem filteredData_membership:
  "filteredData (Some \<lparr>filter_type = ''status'', filter_value = v\<rparr>) data
     = filter (\<lambda>row. getStatus row = v) data
   \<and> filteredData (Some \<lparr>filter_type = ''priority'', filter_value = v\<rparr>) data
     = filter (\<lambda>row. getPriority row = v) data
   \<and> filteredData (Some \<lparr>filter_type = ''type'', filter_value = v\<rparr>) data
     = filter (\<lambda>row. getType row = v) data
   \<and> filteredData (Some \<lparr>filter_type = ''state'', filter_value = v\<rparr>) data
     = filter (\<lambda>row. getState row = v) data
   \<and> length (filteredData (Some \<lparr>filter_type = ''status'', filter_value = v\<rparr>) data)
     = count_list (map getStatus data) v
   \<and> length (filteredData (Some \<lparr>filter_type = ''priority'', filter_value = v\<rparr>) data)
     = count_list (map getPriority data) v
   \<and> length (filteredData (Some \<lparr>filter_type = ''type'', filter_value = v\<rparr>) data)
     = count_list (map getType data) v
   \<and> length (filteredData (Some \<lparr>filter_type = ''state'', filter_value = v\<rparr>) data)
     = count_list (map getState data) v
   \<and> (filteredData (Some \<lparr>filter_type = ''status'', filter_value = v\<rparr>) data = []
        \<longleftrightarrow> v \<notin> getStatus ` set data)
   \<and> (filteredData (Some \<lparr>filter_type = ''priority'', filter_value = v\<rparr>) data = []
        \<longleftrightarrow> v \<notin> getPriority ` set data)
   \<and> (filteredData (Some \<lparr>filter_type = ''type'', filter_value = v\<rparr>) data = []
        \<longleftrightarrow> v \<notin> getType ` set data)
   \<and> (filteredData (Some \<lparr>filter_type = ''state'', filter_value = v\<rparr>) data = []
        \<longleftrightarrow> v \<notin> getState ` set data)"
proof -
  have s: "filteredData (Some \<lparr>filter_type = ''status'', filter_value = v\<rparr>) data
     = filter (\<lambda>row. getStatus row = v) data"
    by (simp add: filteredData_def)
  have p: "filteredData (Some \<lparr>filter_type = ''priority'', filter_value = v\<rparr>) data
     = filter (\<lambda>row. getPriority row = v) data"
    by (simp add: filteredData_def)
  have t: "filteredData (Some \<lparr>filter_type = ''type'', filter_value = v\<rparr>) data
     = filter (\<lambda>row. getType row = v) data"
    by (simp add: filteredData_def)
  have e: "filteredData (Some \<lparr>filter_type = ''state'', filter_value = v\<rparr>) data
     = filter (\<lambda>row. getState row = v) data"
    by (simp add: filteredData_def)
  show ?thesis
    unfolding s p t e by (simp only: length_filter_count filter_empty_image simp_thms)
qed

text \<open>
  Claim C10. An active selector whose kind is none of the four names keeps every record,
  and with no selector the filtered result is empty.
\<close>

theorem filteredData_fallback:
  "(filter_type sel \<noteq> ''status'' \<and> filter_type sel \<noteq> ''priority''
      \<and> filter_type sel \<noteq> ''type'' \<and> filter_type sel \<noteq> ''state''
     \<longrightarrow> filteredData (Some sel) data = data)
   \<and> filteredData None data = []"
  by (simp add: filteredData_def)

theorem filteredData_fallback_witness:
  "filteredData (Some \<lparr>filter_type = ''assignee'', filter_value = ''7''\<rparr>)
      [[(''Status'', ''Open'')], [(''Status'', ''Closed'')]]
     = [[(''Status'', ''Open'')], [(''Status'', ''Closed'')]]
   \<and> filteredData None [[(''Status'', ''Open'')], [(''Status'', ''Closed'')]] = []"
proof -
  have "filter_type \<lparr>filter_type = ''assignee'', filter_value = ''7''\<rparr> \<noteq> ''status''
      \<and> filter_type \<lparr>filter_type = ''assignee'', filter_value = ''7''\<rparr> \<noteq> ''priority''
      \<and> filter_type \<lparr>filter_type = ''assignee'', filter_value = ''7''\<rparr> \<noteq> ''type''
      \<and> filter_type \<lparr>filter_type = ''assignee'', filter_value = ''7''\<rparr> \<noteq> ''state''"
    by simp
  then show ?thesis
    using filteredData_fallback [where sel = "\<lparr>filter_type = ''assignee'', filter_value = ''7''\<rparr>"
        and data = "[[(''Status'', ''Open'')], [(''Status'', ''Closed'')]]"]
    by blast
qed

section \<open>Properties of the average resolution time\<close>

lemma toFixed1_nearest:
  assumes s: "0 \<le> s" and l: "0 < l" and small: "20 * s < 2 ^ 53"
  shows "\<bar>of_int \<lfloor>10 * fdiv s l + 1 / 2\<rfloor> / 10 - (of_int s / of_int l :: rat)\<bar> \<le> 1 / 20"
proof -
  define q :: rat where "q = of_int s / of_int l"
  define x where "x = fdiv s l"
  define n where "n = \<lfloor>10 * x + 1 / 2\<rfloor>"
  have lr: "(0::rat) < of_int l"
    using l by simp
  have sq: "of_int s = q * of_int l"
    using l by (simp add: q_def)
  have err: "\<bar>x - q\<bar> \<le> q / 2 ^ 53"
  proof (cases "s = 0")
    case True
    then show ?thesis by (simp add: x_def q_def fdiv_zero)
  next
    case False
    then have "0 < s" using s by simp
    then show ?thesis
      unfolding x_def q_def using l by (rule fdiv_error)
  qed
  have "(of_int (20 * s) :: rat) < of_int (2 ^ 53)"
    using small by (simp only: of_int_less_iff)
  then have "20 * (q * of_int l) < (2 ^ 53 :: rat)"
    by (simp add: sq)
  then have "q * (20 * of_int l) < (2 ^ 53 :: rat)"
    by (simp add: mult.commute mult.left_commute)
  then have "q < 2 ^ 53 / (20 * of_int l)"
    using lr by (simp add: pos_less_divide_eq)
  then have "q / 2 ^ 53 < 1 / (20 * of_int l)"
    by (simp add: divide_less_eq mult.commute)
  then have close: "\<bar>x - q\<bar> < 1 / (20 * of_int l)"
    using err by linarith
  have n1: "of_int n \<le> 10 * x + 1 / 2" and n2: "10 * x + 1 / 2 < of_int n + 1"
    unfolding n_def by linarith+
  have upper: "of_int n \<le> 10 * q + 1 / 2"
  proof (rule ccontr)
    assume "\<not> of_int n \<le> 10 * q + 1 / 2"
    then have "10 * q + 1 / 2 < of_int n"
      by simp
    then have "(10 * q + 1 / 2) * (2 * of_int l) < of_int n * (2 * of_int l)"
      using lr by (simp add: mult_strict_right_mono)
    then have "(of_int (20 * s + l) :: rat) < of_int (n * (2 * l))"
      by (simp add: sq algebra_simps)
    then have "20 * s + l < n * (2 * l)"
      by (simp only: of_int_less_iff)
    then have "20 * s + l + 1 \<le> n * (2 * l)"
      by simp
    then have "(of_int (20 * s + l + 1) :: rat) \<le> of_int (n * (2 * l))"
      by (simp only: of_int_le_iff)
    then have "(10 * q + 1 / 2) * (2 * of_int l) + 1 \<le> of_int n * (2 * of_int l)"
      by (simp add: sq algebra_simps)
    then have "(10 * q + 1 / 2) * (2 * of_int l) + 1 \<le> (10 * x + 1 / 2) * (2 * of_int l)"
      using n1 lr mult_right_mono [of "of_int n" "10 * x + 1 / 2" "2 * of_int l"] by linarith
    then have "1 \<le> (x - q) * (20 * of_int l)"
      by (simp add: algebra_simps)
    then have "1 / (20 * of_int l) \<le> x - q"
      using lr by (simp add: pos_divide_le_eq)
    then show False
      using close by linarith
  qed
  have lower: "10 * q - 1 / 2 \<le> of_int n"
  proof (rule ccontr)
    assume "\<not> 10 * q - 1 / 2 \<le> of_int n"
    then have "of_int n < 10 * q - 1 / 2"
      by simp
    then have "of_int n * (2 * of_int l) < (10 * q - 1 / 2) * (2 * of_int l)"
      using lr by (simp add: mult_strict_right_mono)
    then have "(of_int (n * (2 * l)) :: rat) < of_int (20 * s - l)"
      by (simp add: sq algebra_simps)
    then have "n * (2 * l) < 20 * s - l"
      by (simp only: of_int_less_iff)
    then have "n * (2 * l) + 1 \<le> 20 * s - l"
      by simp
    then have "(of_int (n * (2 * l) + 1) :: rat) \<le> of_int (20 * s - l)"
      by (simp only: of_int_le_iff)
    then have "of_int n * (2 * of_int l) + 1 \<le> (10 * q - 1 / 2) * (2 * of_int l)"
      by (simp add: sq algebra_simps)
    moreover have "(10 * x + 1 / 2) * (2 * of_int l) < (of_int n + 1) * (2 * of_int l)"
      using n2 lr by (simp add: mult_strict_right_mono)
    ultimately have "(10 * x + 1 / 2) * (2 * of_int l) + 1
        < (10 * q - 1 / 2) * (2 * of_int l) + 2 * of_int l"
      by (simp add: algebra_simps)
    then have "1 < (q - x) * (20 * of_int l)"
      by (simp add: algebra_simps)
    then have "1 / (20 * of_int l) < q - x"
      using lr by (simp add: pos_divide_less_eq)
    then show False
      using close by linarith
  qed
  have "\<bar>of_int n / 10 - q\<bar> \<le> 1 / 20"
    using upper lower by linarith
  then show ?thesis
    by (simp add: n_def x_def q_def)
qed

lemma toFixed1_nonneg:
  assumes "0 \<le> s" and "0 < l"
  shows "0 \<le> \<lfloor>10 * fdiv s l + 1 / 2\<rfloor>"
  using fdiv_nonneg [OF assms] by simp

lemma digitsOf_small: "n < 10 \<Longrightarrow> digitsOf n = [char_of (48 + n)]"
  by (simp add: digitsOf.simps [of n])

lemma digitsOf_large: "\<not> n < 10 \<Longrightarrow> digitsOf n = digitsOf (n div 10) @ [char_of (48 + n mod 10)]"
  by (simp add: digitsOf.simps [of n])

lemma tenths_digits:
  assumes "0 \<le> n"
  shows "tenths n = toString (n div 10) @ ''.'' @ toString (n mod 10)"
proof (cases "n < 10")
  case True
  then have "toString n = [char_of (48 + n)]" "n div 10 = 0" "n mod 10 = n"
    using assms by (simp_all add: toString_def digitsOf_small)
  moreover have "toString 0 = ''0''"
    by code_simp
  ultimately show ?thesis
    by (simp add: tenths_def Let_def)
next
  case False
  have d: "0 \<le> n div 10" "0 \<le> n mod 10" "n mod 10 < 10"
    using assms by simp_all
  have ne: "digitsOf (n div 10) \<noteq> []"
    using digitsOf_digits [OF d(1)] by simp
  have m: "toString n = digitsOf (n div 10) @ [char_of (48 + n mod 10)]"
    using assms False by (simp add: toString_def digitsOf_large)
  have hi: "toString (n div 10) = digitsOf (n div 10)"
    using d(1) by (simp add: toString_def)
  have lo: "toString (n mod 10) = [char_of (48 + n mod 10)]"
    using d(2,3) by (simp add: toString_def digitsOf_small)
  have len: "\<not> length (toString n) \<le> 1"
    using ne unfolding m by (cases "digitsOf (n div 10)") simp_all
  show ?thesis
    unfolding tenths_def Let_def hi lo using len by (simp add: m)
qed

lemma foldl_plus_sum: "foldl (+) a xs = a + sum_list xs"
  for a :: int
  by (induction xs arbitrary: a) simp_all

lemma getResolutionDays_range:
  "getResolutionDays rt row = ''-''
   \<or> (\<exists>d. 0 \<le> d \<and> getResolutionDays rt row = toString d \<and> getResolutionDays rt row \<noteq> ''-'')"
proof (cases "getResolutionDays rt row = ''-''")
  case True
  then show ?thesis by simp
next
  case False
  then obtain c z where "getResolutionDays rt row = toString \<lceil>fdiv \<bar>fsub z c\<bar> msPerDay\<rceil>"
    by (auto simp: getResolutionDays_cases split: option.splits)
  then show ?thesis
    using False days_nonneg [of z c] by blast
qed

lemma resolutionTimes_values:
  "map toString (resolutionTimes rt data) = filter (\<lambda>s. s \<noteq> ''-'') (map (getResolutionDays rt) data)
   \<and> list_all (\<lambda>t. 0 \<le> t) (resolutionTimes rt data)"
proof (induction data)
  case Nil
  show ?case by (simp add: resolutionTimes_def List.map_filter_simps)
next
  case (Cons row data)
  from getResolutionDays_range [of rt row] show ?case
  proof
    assume "getResolutionDays rt row = ''-''"
    then show ?thesis
      using Cons by (simp add: resolutionTimes_def List.map_filter_simps)
  next
    assume "\<exists>d. 0 \<le> d \<and> getResolutionDays rt row = toString d \<and> getResolutionDays rt row \<noteq> ''-''"
    then obtain d where d: "0 \<le> d" "getResolutionDays rt row = toString d" "toString d \<noteq> ''-''"
      by auto
    have "parseInt (toString d) = Some d"
      using d(1) by (rule parseInt_toString)
    then show ?thesis
      using Cons d by (simp add: resolutionTimes_def List.map_filter_simps)
  qed
qed

lemma sum_list_nonneg_int: "list_all (\<lambda>t. 0 \<le> t) ts \<Longrightarrow> 0 \<le> sum_list ts"
  for ts :: "int list"
  by (induction ts) simp_all

text \<open>
  Claim C8. The numbers averaged are exactly the values of the records whose calculator
  result is not \<open>-\<close>. When there is none (in particular when no record has a closing
  date) the result is \<open>0\<close>. Otherwise the result is a decimal numeral with one digit
  after the point whose value is a tenth nearest to the arithmetic mean: it differs from
  the mean by at most one twentieth. The sum of the values is taken below \<open>2^53 / 20\<close>,
  where the additions of the program are exact.
\<close>

theorem avgResolutionTime_mean:
  "map toString (resolutionTimes rt data)
     = filter (\<lambda>s. s \<noteq> ''-'') (map (getResolutionDays rt) data)
   \<and> (filter (\<lambda>s. s \<noteq> ''-'') (map (getResolutionDays rt) data) = []
     \<longrightarrow> avgResolutionTime rt data = ''0'')
   \<and> (list_all (\<lambda>row. getClosedOn row = ''-'') data \<longrightarrow> avgResolutionTime rt data = ''0'')
   \<and> (resolutionTimes rt data \<noteq> [] \<and> 20 * sum_list (resolutionTimes rt data) < 2 ^ 53
     \<longrightarrow> (\<exists>n. 0 \<le> n
           \<and> avgResolutionTime rt data = toString (n div 10) @ ''.'' @ toString (n mod 10)
           \<and> \<bar>of_int n / 10
               - (of_int (sum_list (resolutionTimes rt data))
                   / of_int (int (length (resolutionTimes rt data))) :: rat)\<bar> \<le> 1 / 20))"
proof (intro conjI impI)
  show v: "map toString (resolutionTimes rt data)
     = filter (\<lambda>s. s \<noteq> ''-'') (map (getResolutionDays rt) data)"
    using resolutionTimes_values by blast
  {
    assume "filter (\<lambda>s. s \<noteq> ''-'') (map (getResolutionDays rt) data) = []"
    then have "resolutionTimes rt data = []"
      using v by simp
    then show "avgResolutionTime rt data = ''0''"
      by (simp add: avgResolutionTime_def)
  }
  {
    assume "list_all (\<lambda>row. getClosedOn row = ''-'') data"
    then have "\<forall>row\<in>set data. getResolutionDays rt row = ''-''"
      by (simp add: list_all_iff getResolutionDays_def)
    then have "filter (\<lambda>s. s \<noteq> ''-'') (map (getResolutionDays rt) data) = []"
      by (simp add: filter_empty_conv)
    then have "resolutionTimes rt data = []"
      using v by simp
    then show "avgResolutionTime rt data = ''0''"
      by (simp add: avgResolutionTime_def)
  }
  {
    let ?ts = "resolutionTimes rt data"
    let ?n = "\<lfloor>10 * fdiv (sum_list ?ts) (int (length ?ts)) + 1 / 2\<rfloor>"
    assume a: "?ts \<noteq> [] \<and> 20 * sum_list ?ts < 2 ^ 53"
    have s: "0 \<le> sum_list ?ts"
      using resolutionTimes_values [of rt data] by (simp add: sum_list_nonneg_int)
    have l: "0 < int (length ?ts)"
      using a by simp
    have n: "0 \<le> ?n"
      using s l by (rule toFixed1_nonneg)
    have "avgResolutionTime rt data = tenths ?n"
      using a by (simp add: avgResolutionTime_def Let_def toFixed1_def foldl_plus_sum)
    then have "avgResolutionTime rt data = toString (?n div 10) @ ''.'' @ toString (?n mod 10)"
      using tenths_digits [OF n] by simp
    moreover have "\<bar>of_int ?n / 10 - (of_int (sum_list ?ts) / of_int (int (length ?ts)) :: rat)\<bar> \<le> 1 / 20"
      using s l a by (intro toFixed1_nearest) simp_all
    ultimately show "\<exists>n. 0 \<le> n
           \<and> avgResolutionTime rt data = toString (n div 10) @ ''.'' @ toString (n mod 10)
           \<and> \<bar>of_int n / 10
               - (of_int (sum_list (resolutionTimes rt data))
                   / of_int (int (length (resolutionTimes rt data))) :: rat)\<bar> \<le> 1 / 20"
      using n by blast
  }
qed

theorem avgResolutionTime_mean_witness:
  "(\<exists>n. 0 \<le> n
      \<and> avgResolutionTime exampleHost
           [[(''created_on'', ''1/1/24''), (''closed_on'', ''3/1/24'')],
            [(''created_on'', ''1/1/24''), (''closed_on'', ''4/1/24'')], []]
          = toString (n div 10) @ ''.'' @ toString (n mod 10)
      \<and> \<bar>of_int n / 10
           - (of_int (sum_list (resolutionTimes exampleHost
                [[(''created_on'', ''1/1/24''), (''closed_on'', ''3/1/24'')],
                 [(''created_on'', ''1/1/24''), (''closed_on'', ''4/1/24'')], []]))
              / of_int (int (length (resolutionTimes exampleHost
                [[(''created_on'', ''1/1/24''), (''closed_on'', ''3/1/24'')],
                 [(''created_on'', ''1/1/24''), (''closed_on'', ''4/1/24'')], []]))) :: rat)\<bar> \<le> 1 / 20)
   \<and> avgResolutionTime exampleHost [[(''created_on'', ''1/1/24'')], [(''Status'', ''Open'')]] = ''0''
   \<and> avgResolutionTime exampleHost
        [[(''created_on'', ''1/1/24''), (''closed_on'', ''3/1/24'')],
         [(''created_on'', ''1/1/24''), (''closed_on'', ''4/1/24'')], []] = ''2.5''"
proof -
  have h1: "resolutionTimes exampleHost
        [[(''created_on'', ''1/1/24''), (''closed_on'', ''3/1/24'')],
         [(''created_on'', ''1/1/24''), (''closed_on'', ''4/1/24'')], []] \<noteq> []
      \<and> 20 * sum_list (resolutionTimes exampleHost
        [[(''created_on'', ''1/1/24''), (''closed_on'', ''3/1/24'')],
         [(''created_on'', ''1/1/24''), (''closed_on'', ''4/1/24'')], []]) < 2 ^ 53"
    by code_simp
  have h2: "filter (\<lambda>s. s \<noteq> ''-'')
      (map (getResolutionDays exampleHost) [[(''created_on'', ''1/1/24'')], [(''Status'', ''Open'')]]) = []"
    by code_simp
  have h3: "list_all (\<lambda>row. getClosedOn row = ''-'') [[(''created_on'', ''1/1/24'')], [(''Status'', ''Open'')]]"
    by code_simp
  have e: "avgResolutionTime exampleHost
        [[(''created_on'', ''1/1/24''), (''closed_on'', ''3/1/24'')],
         [(''created_on'', ''1/1/24''), (''closed_on'', ''4/1/24'')], []] = ''2.5''"
    by code_simp
  show ?thesis
    using e h1 h2 h3
      avgResolutionTime_mean [where rt = exampleHost and data =
        "[[(''created_on'', ''1/1/24''), (''closed_on'', ''3/1/24'')],
          [(''created_on'', ''1/1/24''), (''closed_on'', ''4/1/24'')], []]"]
      avgResolutionTime_mean [where rt = exampleHost and data =
        "[[(''created_on'', ''1/1/24'')], [(''Status'', ''Open'')]]"]
    by blast
qed

text \<open>
  On an exact tie the double nearest to the mean decides: 7/20 is rendered \<open>0.3\<close> and
  1/4 is rendered \<open>0.3\<close>, both nearest tenths.
\<close>

lemma toFixed1_ties: "toFixed1 (fdiv 7 20) = ''0.3'' \<and> toFixed1 (fdiv 1 4) = ''0.3''"
  by code_simp

end
